theory Spec2Isabelle
  imports Complex_Main "HOL-Library.Sublist"
begin

section \<open>Data model\<close>

text \<open>
  The program is a single-threaded Node.js script. Everything it does beyond computing
  values is made explicit here: calls of the logger, of \<open>fetch\<close>, of \<open>fs.readFile\<close> and
  of \<open>setTimeout\<close> are recorded, in program order, in a trace of events, and the
  outside world (the remote service, the file system, the clock, the random generator)
  is a state of an arbitrary type \<open>'x\<close> that the external functions read and update.

  JavaScript strings are modelled as \<open>string\<close>; JavaScript numbers that the program
  computes with (delays) are exact rationals, so rounding of IEEE doubles is not modelled.
\<close>

datatype level = Error | Warn | Info

text \<open>
  A thrown \<open>Error\<close> object with the two extra properties the program attaches to it.
  \<open>status = None\<close> and \<open>noRetry = False\<close> stand for an absent property.
\<close>

record err =
  message :: string
  status :: "nat option"
  noRetry :: bool

text \<open>A value produced by \<open>response.json()\<close>; the members of an object are in source order.\<close>

datatype json =
    JNull
  | JBool bool
  | JNum rat
  | JStr string
  | JArr "json list"
  | JObj "(string \<times> json) list"

text \<open>The arguments of one call \<open>fetch(url, options)\<close>.\<close>

record request =
  url :: string
  http_method :: string
  headers :: "(string \<times> string) list"
  body :: "json option"
  agent :: "string option"

text \<open>
  Effects of the leaf operations: a log entry (level, the optional \<open>email\<close> field, the
  message), a call of \<open>fetch\<close>, a call of \<open>fs.readFile\<close>.
\<close>

datatype effect =
    Logged level "string option" string
  | Fetched request
  | FileRead string

text \<open>
  Events of a run. \<open>Attempt k\<close> marks the \<open>k\<close>-th call \<open>fn()\<close> made by a retry loop,
  \<open>Waited d\<close> a \<open>setTimeout\<close> of \<open>d\<close> milliseconds that the program awaits, and
  \<open>Invoked email password proxy\<close> the call \<open>loginAndCheckIn(email, password, proxy)\<close>
  made by the scheduler.
\<close>

datatype event =
    Eff effect
  | Attempt nat
  | Waited rat
  | Invoked string string "string option"

definition trace_of :: "'a \<times> event list \<times> 'x \<Rightarrow> event list" where
  "trace_of p = fst (snd p)"

definition state_of :: "'a \<times> 'e list \<times> 'x \<Rightarrow> 'x" where
  "state_of p = snd (snd p)"

section \<open>Number formatting\<close>

text \<open>Decimal rendering of the integers the program interpolates into messages.\<close>

function show_nat :: "nat \<Rightarrow> string" where
  "show_nat n =
     (if n < 10 then [char_of (48 + n)]
      else show_nat (n div 10) @ [char_of (48 + n mod 10)])"
  by pat_completeness auto
termination
  by (relation "measure id") auto

declare show_nat.simps [simp del]

definition show_int :: "int \<Rightarrow> string" where
  "show_int i = (if i < 0 then CHR ''-'' # show_nat (nat (- i)) else show_nat (nat i))"

text \<open>\<open>Math.round\<close>: the nearest integer, halves rounded up.\<close>

definition Math_round :: "rat \<Rightarrow> int" where
  "Math_round r = \<lfloor>r + 1 / 2\<rfloor>"

section \<open>Retry policy\<close>

text \<open>
  An operation is any function of the outside world that returns a value or throws an
  \<open>Error\<close>, with the effects it had. \<open>lastError\<close> starts undefined (\<open>None\<close>); the loop
  counter starts at 1, so \<open>attempt - 1\<close> is never negative.
\<close>

definition retry_warning :: "nat \<Rightarrow> rat \<Rightarrow> err \<Rightarrow> event" where
  "retry_warning attempt backoffDelay error =
     Eff (Logged Warn None
       (''Attempt '' @ show_nat attempt @ '' failed. Retrying in ''
          @ show_int (Math_round (backoffDelay / 1000)) @ ''s... Error: '' @ message error))"

function withRetry_loop ::
  "('x \<Rightarrow> (err + 'a) \<times> effect list \<times> 'x) \<Rightarrow> nat \<Rightarrow> rat \<Rightarrow> nat \<Rightarrow> err option \<Rightarrow> 'x
     \<Rightarrow> (err option + 'a) \<times> event list \<times> 'x" where
  "withRetry_loop fn retries delay attempt lastError x =
     (if attempt \<le> retries then
        (case fn x of
           (Inr v, evs, x') \<Rightarrow> (Inr v, Attempt attempt # map Eff evs, x')
         | (Inl error, evs, x') \<Rightarrow>
             (let waits =
                (if attempt < retries then
                   (let backoffDelay = delay * (3 / 2) ^ (attempt - 1) in
                    [retry_warning attempt backoffDelay error, Waited backoffDelay])
                 else []);
                (r, evs2, x'') = withRetry_loop fn retries delay (attempt + 1) (Some error) x'
              in (r, Attempt attempt # map Eff evs @ waits @ evs2, x'')))
      else (Inl lastError, [], x))"
  by pat_completeness auto
termination
  by (relation "measure (\<lambda>(fn, retries, delay, attempt, lastError, x). retries + 1 - attempt)")
    auto

declare withRetry_loop.simps [simp del]

definition withRetry ::
  "('x \<Rightarrow> (err + 'a) \<times> effect list \<times> 'x) \<Rightarrow> nat \<Rightarrow> rat \<Rightarrow> 'x
     \<Rightarrow> (err option + 'a) \<times> event list \<times> 'x" where
  "withRetry fn retries delay x = withRetry_loop fn retries delay 1 None x"

function withSelectiveRetry_loop ::
  "('x \<Rightarrow> (err + 'a) \<times> effect list \<times> 'x) \<Rightarrow> nat \<Rightarrow> rat \<Rightarrow> nat \<Rightarrow> err option \<Rightarrow> 'x
     \<Rightarrow> (err option + 'a) \<times> event list \<times> 'x" where
  "withSelectiveRetry_loop fn retries delay attempt lastError x =
     (if attempt \<le> retries then
        (case fn x of
           (Inr v, evs, x') \<Rightarrow> (Inr v, Attempt attempt # map Eff evs, x')
         | (Inl error, evs, x') \<Rightarrow>
             if noRetry error then (Inl (Some error), Attempt attempt # map Eff evs, x')
             else
               (let waits =
                  (if attempt < retries then
                     (let backoffDelay = delay * (3 / 2) ^ (attempt - 1) in
                      [retry_warning attempt backoffDelay error, Waited backoffDelay])
                   else []);
                  (r, evs2, x'') =
                     withSelectiveRetry_loop fn retries delay (attempt + 1) (Some error) x'
                in (r, Attempt attempt # map Eff evs @ waits @ evs2, x'')))
      else (Inl lastError, [], x))"
  by pat_completeness auto
termination
  by (relation "measure (\<lambda>(fn, retries, delay, attempt, lastError, x). retries + 1 - attempt)")
    auto

declare withSelectiveRetry_loop.simps [simp del]

definition withSelectiveRetry ::
  "('x \<Rightarrow> (err + 'a) \<times> effect list \<times> 'x) \<Rightarrow> nat \<Rightarrow> rat \<Rightarrow> 'x
     \<Rightarrow> (err option + 'a) \<times> event list \<times> 'x" where
  "withSelectiveRetry fn retries delay x = withSelectiveRetry_loop fn retries delay 1 None x"

subsection \<open>Vocabulary for stating what a retry loop did\<close>

text \<open>
  \<open>run_op fn x k\<close> is the outside world after \<open>k\<close> consecutive calls of \<open>fn\<close> from \<open>x\<close>;
  \<open>outcome fn x k\<close> and \<open>effects fn x k\<close> are the result and the effects of the \<open>k\<close>-th
  of these calls (\<open>k \<ge> 1\<close>).
\<close>

fun run_op :: "('x \<Rightarrow> (err + 'a) \<times> effect list \<times> 'x) \<Rightarrow> 'x \<Rightarrow> nat \<Rightarrow> 'x" where
  "run_op fn x 0 = x"
| "run_op fn x (Suc k) = state_of (fn (run_op fn x k))"

definition outcome :: "('x \<Rightarrow> (err + 'a) \<times> effect list \<times> 'x) \<Rightarrow> 'x \<Rightarrow> nat \<Rightarrow> err + 'a" where
  "outcome fn x k = fst (fn (run_op fn x (k - 1)))"

definition effects :: "('x \<Rightarrow> (err + 'a) \<times> effect list \<times> 'x) \<Rightarrow> 'x \<Rightarrow> nat \<Rightarrow> effect list" where
  "effects fn x k = fst (snd (fn (run_op fn x (k - 1))))"

definition failure :: "err + 'a \<Rightarrow> bool" where
  "failure r = (case r of Inl e \<Rightarrow> True | Inr v \<Rightarrow> False)"

definition retryable_failure :: "err + 'a \<Rightarrow> bool" where
  "retryable_failure r = (case r of Inl e \<Rightarrow> \<not> noRetry e | Inr v \<Rightarrow> False)"

definition thrown :: "err + 'a \<Rightarrow> err option + 'a" where
  "thrown r = (case r of Inl e \<Rightarrow> Inl (Some e) | Inr v \<Rightarrow> Inr v)"

text \<open>The events of the retry loop itself, without the effects of the operation.\<close>

fun is_Eff :: "event \<Rightarrow> bool" where
  "is_Eff (Eff e) = True"
| "is_Eff _ = False"

definition retry_events :: "event list \<Rightarrow> event list" where
  "retry_events tr = filter (\<lambda>e. \<not> is_Eff e) tr"

text \<open>
  \<open>schedule d a j\<close>: attempts \<open>a, a + 1, \<dots>, a + j - 1\<close>, and between attempt \<open>k\<close> and
  attempt \<open>k + 1\<close> one wait of \<open>d \<times> 1.5^(k - 1)\<close>.
\<close>

fun schedule :: "rat \<Rightarrow> nat \<Rightarrow> nat \<Rightarrow> event list" where
  "schedule d a 0 = []"
| "schedule d a (Suc j) =
     Attempt a # (if j = 0 then [] else Waited (d * (3 / 2) ^ (a - 1)) # schedule d (a + 1) j)"

text \<open>The attempt numbers and the waits of a trace, in order.\<close>

fun attempts :: "event list \<Rightarrow> nat list" where
  "attempts [] = []"
| "attempts (Attempt k # tr) = k # attempts tr"
| "attempts (e # tr) = attempts tr"

fun waits :: "event list \<Rightarrow> rat list" where
  "waits [] = []"
| "waits (Waited w # tr) = w # waits tr"
| "waits (e # tr) = waits tr"

text \<open>
  \<open>retry_run again fn n d a x p j\<close>: the result \<open>p\<close> is that of a loop which, entered at
  attempt \<open>a\<close> in the world \<open>x\<close>, called \<open>fn\<close> exactly \<open>j\<close> times, going on after each
  outcome that satisfies \<open>again\<close> while attempts were left.
\<close>

definition retry_run ::
  "(err + 'a \<Rightarrow> bool) \<Rightarrow> ('x \<Rightarrow> (err + 'a) \<times> effect list \<times> 'x) \<Rightarrow> nat \<Rightarrow> rat \<Rightarrow> nat \<Rightarrow> 'x
     \<Rightarrow> (err option + 'a) \<times> event list \<times> 'x \<Rightarrow> nat \<Rightarrow> bool" where
  "retry_run again fn n d a x p j \<longleftrightarrow>
     1 \<le> j \<and> a + j \<le> n + 1
   \<and> retry_events (trace_of p) = schedule d a j
   \<and> (\<forall>k. 1 \<le> k \<and> k < j \<longrightarrow> again (outcome fn x k))
   \<and> fst p = thrown (outcome fn x j)
   \<and> (a + j = n + 1 \<or> \<not> again (outcome fn x j))
   \<and> state_of p = run_op fn x j
   \<and> (\<exists>pre. trace_of p = pre @ Attempt (a + j - 1) # map Eff (effects fn x j))"


section \<open>Strings and JSON values as JavaScript sees them\<close>

text \<open>\<open>s.includes(t)\<close>, \<open>s.startsWith(t)\<close>.\<close>

fun includes_str :: "string \<Rightarrow> string \<Rightarrow> bool" where
  "includes_str [] t = (t = [])"
| "includes_str (c # cs) t = (prefix t (c # cs) \<or> includes_str cs t)"

definition startsWith :: "string \<Rightarrow> string \<Rightarrow> bool" where
  "startsWith s t = prefix t s"

text \<open>
  \<open>s.trim()\<close> removes white space and line terminators at both ends. Characters are the
  code units below 256, among which these are TAB, LF, VT, FF, CR, SP and NBSP.
\<close>

definition is_whitespace :: "char \<Rightarrow> bool" where
  "is_whitespace c = (of_char c \<in> {9, 10, 11, 12, 13, 32, 160 :: nat})"

definition trim :: "string \<Rightarrow> string" where
  "trim s = rev (dropWhile is_whitespace (rev (dropWhile is_whitespace s)))"

text \<open>\<open>s.split(c)\<close> for a one-character separator: the parts between the separators, in
  order; the empty string has one part, the empty string.\<close>

fun split :: "char \<Rightarrow> string \<Rightarrow> string list" where
  "split c [] = [[]]"
| "split c (x # xs) =
     (if x = c then [] # split c xs
      else (case split c xs of [] \<Rightarrow> [[x]] | w # ws \<Rightarrow> (x # w) # ws))"

text \<open>\<open>xs[i]\<close>, which is \<open>undefined\<close> out of range.\<close>

definition nth_opt :: "'a list \<Rightarrow> nat \<Rightarrow> 'a option" where
  "nth_opt xs i = (if i < length xs then Some (xs ! i) else None)"

text \<open>Truthiness of a string that may be \<open>undefined\<close> or \<open>null\<close>.\<close>

definition truthy_str :: "string option \<Rightarrow> bool" where
  "truthy_str s = (case s of None \<Rightarrow> False | Some t \<Rightarrow> t \<noteq> [])"

text \<open>Truthiness of a JSON value, and of a property that may be \<open>undefined\<close>.\<close>

fun truthy :: "json \<Rightarrow> bool" where
  "truthy JNull = False"
| "truthy (JBool b) = b"
| "truthy (JNum r) = (r \<noteq> 0)"
| "truthy (JStr s) = (s \<noteq> [])"
| "truthy (JArr xs) = True"
| "truthy (JObj kvs) = True"

definition truthy_opt :: "json option \<Rightarrow> bool" where
  "truthy_opt v = (case v of None \<Rightarrow> False | Some w \<Rightarrow> truthy w)"

text \<open>
  \<open>v.name\<close> for a value \<open>v\<close> that is not \<open>null\<close>, and a name that no prototype defines:
  the last member of that name of an object, \<open>undefined\<close> otherwise.
\<close>

fun field :: "string \<Rightarrow> json \<Rightarrow> json option" where
  "field name (JObj kvs) = map_of (rev kvs) name"
| "field name _ = None"

fun join :: "string \<Rightarrow> string list \<Rightarrow> string" where
  "join sep [] = []"
| "join sep [x] = x"
| "join sep (x # y # zs) = x @ sep @ join sep (y # zs)"

text \<open>
  The string a template literal interpolates for a value. How a number prints is left to
  the parameter \<open>ns\<close> (\<open>Number.prototype.toString\<close>).
\<close>

fun ToString :: "(rat \<Rightarrow> string) \<Rightarrow> json \<Rightarrow> string" where
  "ToString ns JNull = ''null''"
| "ToString ns (JBool b) = (if b then ''true'' else ''false'')"
| "ToString ns (JNum r) = ns r"
| "ToString ns (JStr s) = s"
| "ToString ns (JArr xs) = join '','' (map (\<lambda>v. if v = JNull then [] else ToString ns v) xs)"
| "ToString ns (JObj kvs) = ''[object Object]''"

definition ToString_opt :: "(rat \<Rightarrow> string) \<Rightarrow> json option \<Rightarrow> string" where
  "ToString_opt ns v = (case v of None \<Rightarrow> ''undefined'' | Some w \<Rightarrow> ToString ns w)"

text \<open>
  The \<open>TypeError\<close> that reading property \<open>name\<close> of \<open>undefined\<close> throws (the text is
  that of V8).
\<close>

definition TypeError :: "string \<Rightarrow> err" where
  "TypeError name =
     \<lparr>message = ''Cannot read properties of undefined (reading '' @ [CHR 0x27] @ name
        @ [CHR 0x27] @ '')'',
      status = None, noRetry = False\<rparr>"

section \<open>The outside world\<close>

text \<open>
  What \<open>fetch\<close> does with a request: the promise rejects with an \<open>Error\<close> of the given
  message, or it resolves to a response with a status and a body, for which
  \<open>response.json()\<close> rejects (\<open>Inl\<close>) or yields a value (\<open>Inr\<close>).
\<close>

datatype fetch_result =
    Rejected string
  | Response nat "string + json"

text \<open>
  The external functions the program calls, as parameters: \<open>fetch\<close>; the constructor of
  the proxy agent, which throws (\<open>Inl\<close>) on a URL it cannot parse; \<open>fs.readFile\<close>, which
  rejects (\<open>Inl\<close>) or yields the text; \<open>Math.random\<close>; the calendar arithmetic of \<open>Date\<close>,
  which, for the minute and the second drawn, gives the milliseconds from now until
  the next run and the text of \<open>toLocaleString\<close>; and the printing of numbers.
\<close>

record 'x env =
  fetch :: "request \<Rightarrow> 'x \<Rightarrow> fetch_result \<times> 'x"
  HttpsProxyAgent :: "string \<Rightarrow> string + string"
  readFile :: "string \<Rightarrow> 'x \<Rightarrow> (string + string) \<times> 'x"
  Math_random :: "'x \<Rightarrow> rat \<times> 'x"
  until_next_run :: "int \<Rightarrow> int \<Rightarrow> 'x \<Rightarrow> (int \<times> string) \<times> 'x"
  Number_toString :: "rat \<Rightarrow> string"

section \<open>Request executor\<close>

definition headersTemplate :: "(string \<times> string) list" where
  "headersTemplate =
     [(''Accept'', ''application/json, text/plain, */*''),
      (''Content-Type'', ''application/json''),
      (''User-Agent'', ''Mozilla/5.0 (Windows NT 10.0; Win64; x64) AppleWebKit/537.36 (KHTML, like Gecko) Chrome/133.0.0.0 Safari/537.36'')]"

text \<open>\<open>response.ok\<close> of node-fetch.\<close>

definition ok :: "nat \<Rightarrow> bool" where
  "ok st = (200 \<le> st \<and> st < 300)"

text \<open>The \<open>options\<close> of the call, or the message of the exception of the agent's constructor.\<close>

definition build_request ::
  "'x env \<Rightarrow> string \<Rightarrow> string \<Rightarrow> json option \<Rightarrow> (string \<times> string) list \<Rightarrow> string option
     \<Rightarrow> string + request" where
  "build_request env u m payloadData hs proxy =
     (let options = \<lparr>url = u, http_method = m, headers = hs,
                      body = (if truthy_opt payloadData then payloadData else None),
                      agent = None\<rparr>
      in case proxy of
           None \<Rightarrow> Inr options
         | Some p \<Rightarrow>
             if p \<noteq> [] then
               (case HttpsProxyAgent env (''http://'' @ p) of
                  Inl msg \<Rightarrow> Inl msg
                | Inr a \<Rightarrow> Inr (options\<lparr>agent := Some a\<rparr>))
             else Inr options)"

text \<open>The \<open>catch\<close> clause of \<open>executeFetch\<close>.\<close>

definition enhancedError :: "err \<Rightarrow> err" where
  "enhancedError error =
     \<lparr>message = ''Request failed: '' @ message error,
      status = (case status error of None \<Rightarrow> None | Some s \<Rightarrow> if s \<noteq> 0 then Some s else None),
      noRetry = noRetry error\<rparr>"

text \<open>An exception of a library: an \<open>Error\<close> with a message and neither property.\<close>

definition plain_error :: "string \<Rightarrow> err" where
  "plain_error msg = \<lparr>message = msg, status = None, noRetry = False\<rparr>"

definition executeFetch ::
  "'x env \<Rightarrow> string \<Rightarrow> string \<Rightarrow> json option \<Rightarrow> (string \<times> string) list \<Rightarrow> string option
     \<Rightarrow> 'x \<Rightarrow> (err + json) \<times> effect list \<times> 'x" where
  "executeFetch env u m payloadData hs proxy x =
     (case build_request env u m payloadData hs proxy of
        Inl msg \<Rightarrow> (Inl (enhancedError (plain_error msg)), [], x)
      | Inr options \<Rightarrow>
          (case fetch env options x of
             (Rejected msg, x') \<Rightarrow>
               (Inl (enhancedError (plain_error msg)), [Fetched options], x')
           | (Response st js, x') \<Rightarrow>
               if \<not> ok st then
                 (Inl (enhancedError
                    \<lparr>message = ''HTTP error! Status: '' @ show_nat st,
                      status = Some st,
                      noRetry = (includes_str u ''/users/earn/'' \<and> st = 400)\<rparr>),
                  [Fetched options], x')
               else
                 (case js of
                    Inl msg \<Rightarrow> (Inl (enhancedError (plain_error msg)), [Fetched options], x')
                  | Inr v \<Rightarrow> (Inr v, [Fetched options], x'))))"

definition proxyFetch ::
  "'x env \<Rightarrow> string \<Rightarrow> string \<Rightarrow> json option \<Rightarrow> (string \<times> string) list \<Rightarrow> string option
     \<Rightarrow> 'x \<Rightarrow> (err option + json) \<times> event list \<times> 'x" where
  "proxyFetch env u m payloadData hs proxy x =
     withSelectiveRetry (executeFetch env u m payloadData hs proxy) 3 2000 x"


section \<open>Loading the account and proxy lists\<close>

record account =
  email :: "string option"
  password :: "string option"

text \<open>The lines of a file that are kept: trimmed, not empty, not starting with \<open>#\<close>.\<close>

definition kept_lines :: "string \<Rightarrow> string list" where
  "kept_lines data =
     filter (\<lambda>line. line \<noteq> [] \<and> \<not> startsWith line ''#'')
       (map trim (split (CHR 0x0A) data))"

definition loadProxies :: "'x env \<Rightarrow> 'x \<Rightarrow> string list \<times> effect list \<times> 'x" where
  "loadProxies env x =
     (case readFile env ''proxy.txt'' x of
        (Inr data, x') \<Rightarrow> (kept_lines data, [FileRead ''proxy.txt''], x')
      | (Inl msg, x') \<Rightarrow>
          ([], [FileRead ''proxy.txt'', Logged Error None (''Error loading proxies: '' @ msg)], x'))"

text \<open>\<open>const [email, password] = line.split(':')\<close>.\<close>

definition parse_account :: "string \<Rightarrow> account" where
  "parse_account line =
     (let parts = split (CHR '':'') line
      in \<lparr>email = nth_opt parts 0, password = nth_opt parts 1\<rparr>)"

definition loadAccounts :: "'x env \<Rightarrow> 'x \<Rightarrow> account list \<times> effect list \<times> 'x" where
  "loadAccounts env x =
     (case readFile env ''data.txt'' x of
        (Inr data, x') \<Rightarrow> (map parse_account (kept_lines data), [FileRead ''data.txt''], x')
      | (Inl msg, x') \<Rightarrow>
          ([], [FileRead ''data.txt'', Logged Error None (''Error loading accounts: '' @ msg)], x'))"

text \<open>The operation that \<open>loadData\<close> hands to the retry policy.\<close>

definition load_both :: "'x env \<Rightarrow> 'x \<Rightarrow> (err + account list \<times> string list) \<times> effect list \<times> 'x" where
  "load_both env x =
     (case loadAccounts env x of
        (accounts, evs1, x1) \<Rightarrow>
          (case loadProxies env x1 of
             (proxies, evs2, x2) \<Rightarrow> (Inr (accounts, proxies), evs1 @ evs2, x2)))"

definition loadData ::
  "'x env \<Rightarrow> 'x \<Rightarrow> (err option + account list \<times> string list) \<times> event list \<times> 'x" where
  "loadData env x = withRetry (load_both env) 5 3000 x"

section \<open>Account workflow\<close>

definition signin_url :: string where
  "signin_url = ''https://node.securitylabs.xyz/api/v1/auth/signin-user''"

definition users_url :: string where
  "users_url = ''https://node.securitylabs.xyz/api/v1/users''"

definition earn_url :: "string \<Rightarrow> string" where
  "earn_url uid = ''https://node.securitylabs.xyz/api/v1/users/earn/'' @ uid"

definition successMsg :: "string \<Rightarrow> string" where
  "successMsg award =
     CHR 0x1B # ''[38;5;46mCheck-in successful! Awarded points: '' @ award @ CHR 0x1B # ''[0m''"

definition alreadyCheckedMsg :: string where
  "alreadyCheckedMsg = CHR 0x1B # ''[38;5;220mAlready checked in today'' @ CHR 0x1B # ''[0m''"

text \<open>
  What the workflow logs for the outcome of the reward-claim request: the body of the
  inner \<open>try\<close> after the request, and the inner \<open>catch\<close>. Reading \<open>status\<close> of a thrown
  \<open>undefined\<close> throws in turn.
\<close>

definition checkin_report :: "'x env \<Rightarrow> string \<Rightarrow> err option + json \<Rightarrow> err + event list" where
  "checkin_report env em checkin =
     (case checkin of
        Inr c \<Rightarrow>
          if truthy c \<and> truthy_opt (field ''tokensToAward'' c) then
            Inr [Eff (Logged Info (Some em)
                   (successMsg (ToString_opt (Number_toString env) (field ''tokensToAward'' c))))]
          else Inr [Eff (Logged Warn (Some em) ''Check-in not available yet.'')]
      | Inl None \<Rightarrow> Inl (TypeError ''status'')
      | Inl (Some checkinError) \<Rightarrow>
          if status checkinError = Some 400 then
            Inr [Eff (Logged Info (Some em) alreadyCheckedMsg)]
          else
            Inr [Eff (Logged Error (Some em) (''Check-in failed: '' @ message checkinError))])"

text \<open>
  The outer \<open>catch\<close> of the workflow, after the trace \<open>tr\<close>: it logs the message of the
  error; reading \<open>message\<close> of a thrown \<open>undefined\<close> throws, and the workflow rejects.
\<close>

definition process_catch ::
  "string \<Rightarrow> err option \<Rightarrow> event list \<Rightarrow> 'x \<Rightarrow> err option \<times> event list \<times> 'x" where
  "process_catch em error tr x =
     (case error of
        None \<Rightarrow> (Some (TypeError ''message''), tr, x)
      | Some e \<Rightarrow>
          (None, tr @ [Eff (Logged Error (Some em) (''Error during process: '' @ message e))], x))"

text \<open>The result is the error the returned promise rejects with, if it does.\<close>

definition loginAndCheckIn ::
  "'x env \<Rightarrow> string \<Rightarrow> string \<Rightarrow> string option \<Rightarrow> 'x \<Rightarrow> err option \<times> event list \<times> 'x" where
  "loginAndCheckIn env em pw proxy x =
     (let tr0 = [Eff (Logged Info (Some em) ''Attempting login'')];
          signInPayload = JObj [(''email'', JStr em), (''password'', JStr pw)]
      in case proxyFetch env signin_url ''POST'' (Some signInPayload) headersTemplate proxy x of
           (Inl error, tr1, x1) \<Rightarrow> process_catch em error (tr0 @ tr1) x1
         | (Inr signIn, tr1, x1) \<Rightarrow>
             if truthy signIn \<and> truthy_opt (field ''accessToken'' signIn) then
               (let hs = headersTemplate
                      @ [(''Authorization'',
                          ''Bearer '' @ ToString_opt (Number_toString env) (field ''accessToken'' signIn))];
                    tr2 = tr0 @ tr1
                      @ [Eff (Logged Info (Some em) ''Login succeeded! Fetching user details...'')]
                in case proxyFetch env users_url ''GET'' None hs proxy x1 of
                     (Inl error, tr3, x2) \<Rightarrow> process_catch em error (tr2 @ tr3) x2
                   | (Inr user, tr3, x2) \<Rightarrow>
                       (let uid = (if truthy user then field ''id'' user else None);
                            dipTokenBalance =
                              (if truthy user then field ''dipTokenBalance'' user else None)
                        in if truthy_opt uid then
                             (let tr4 = tr2 @ tr3
                                    @ [Eff (Logged Info (Some em)
                                         (''User id: '' @ ToString_opt (Number_toString env) uid
                                            @ '' | Current points: ''
                                            @ ToString_opt (Number_toString env) dipTokenBalance)),
                                       Eff (Logged Info (Some em) ''Attempting daily check-in...'')]
                              in case proxyFetch env
                                        (earn_url (ToString_opt (Number_toString env) uid))
                                        ''GET'' None hs proxy x2 of
                                   (checkin, tr5, x3) \<Rightarrow>
                                     (case checkin_report env em checkin of
                                        Inr tr6 \<Rightarrow> (None, tr4 @ tr5 @ tr6, x3)
                                      | Inl error \<Rightarrow>
                                          process_catch em (Some error) (tr4 @ tr5) x3))
                           else (None, tr2 @ tr3, x2)))
             else (None, tr0 @ tr1 @ [Eff (Logged Error (Some em) ''Login failed'')], x1))"

section \<open>Scheduler\<close>

text \<open>\<open>a % b\<close> on integers: the remainder has the sign of \<open>a\<close>.\<close>

definition js_rem :: "int \<Rightarrow> int \<Rightarrow> int" where
  "js_rem a b = sgn a * (\<bar>a\<bar> mod \<bar>b\<bar>)"

text \<open>The \<open>for\<close> loop over the accounts, from index \<open>i\<close>.\<close>

function account_loop ::
  "'x env \<Rightarrow> account list \<Rightarrow> string list \<Rightarrow> nat \<Rightarrow> 'x \<Rightarrow> event list \<times> 'x" where
  "account_loop env accounts proxies i x =
     (if i < length accounts then
        (let proxy = (if length proxies > 0 then Some (proxies ! (i mod length proxies)) else None)
         in case (email (accounts ! i), password (accounts ! i)) of
              (Some em, Some pw) \<Rightarrow>
                if em \<noteq> [] \<and> pw \<noteq> [] then
                  (case loginAndCheckIn env em pw proxy x of
                     (rejected, tr1, x1) \<Rightarrow>
                       (let tr2 =
                          (case rejected of
                             None \<Rightarrow> []
                           | Some e \<Rightarrow>
                               Eff (Logged Error (Some em) (''Process failed: '' @ message e))
                                 # (if i < length accounts - 1 then
                                      [Eff (Logged Warn None
                                         ''Adding extra cooldown of 10s after failure...''),
                                       Waited 10000]
                                    else []))
                        in if i < length accounts - 1 then
                             (case Math_random env x1 of
                                (r, x2) \<Rightarrow>
                                  (let delay = 3000 + \<lfloor>r * 5000\<rfloor>
                                   in case account_loop env accounts proxies (i + 1) x2 of
                                        (tr3, x3) \<Rightarrow>
                                          (Invoked em pw proxy # tr1 @ tr2
                                             @ [Eff (Logged Info None
                                                  (''Waiting '' @ show_int delay
                                                     @ ''ms before next account...'')),
                                                Waited (of_int delay)]
                                             @ tr3, x3)))
                           else
                             (case account_loop env accounts proxies (i + 1) x1 of
                                (tr3, x3) \<Rightarrow> (Invoked em pw proxy # tr1 @ tr2 @ tr3, x3))))
                else account_loop env accounts proxies (i + 1) x
            | _ \<Rightarrow> account_loop env accounts proxies (i + 1) x)
      else ([], x))"
  by pat_completeness auto
termination
  by (relation "measure (\<lambda>(env, accounts, proxies, i, x). length accounts - i)") auto

declare account_loop.simps [simp del]

text \<open>
  The \<open>while (true)\<close> loop, observed for \<open>c\<close> passes: the trace is the prefix of the
  endless run that these passes produce.
\<close>

fun cycles :: "'x env \<Rightarrow> account list \<Rightarrow> string list \<Rightarrow> nat \<Rightarrow> 'x \<Rightarrow> event list \<times> 'x" where
  "cycles env accounts proxies 0 x = ([], x)"
| "cycles env accounts proxies (Suc c) x =
     (case account_loop env accounts proxies 0 x of
        (tr1, x1) \<Rightarrow>
          (case Math_random env x1 of
             (rm, x2) \<Rightarrow>
               (case Math_random env x2 of
                  (rs, x3) \<Rightarrow>
                    (case until_next_run env \<lfloor>rm * 60\<rfloor> \<lfloor>rs * 60\<rfloor> x3 of
                       ((timeUntilNextRun, nextRunTime), x4) \<Rightarrow>
                         (let hoursUntilNextRun = timeUntilNextRun div (1000 * 60 * 60);
                              minutesUntilNextRun =
                                js_rem timeUntilNextRun (1000 * 60 * 60) div (1000 * 60)
                          in case cycles env accounts proxies c x4 of
                               (tr2, x5) \<Rightarrow>
                                 (Eff (Logged Info None
                                    (CHR 0x1B # ''[38;5;51m======== Starting daily check-in process ========''
                                       @ CHR 0x1B # ''[0m''))
                                    # tr1
                                    @ [Eff (Logged Info None
                                         (CHR 0x1B # ''[38;5;51m======== All accounts processed ========''
                                            @ CHR 0x1B # ''[0m'')),
                                       Eff (Logged Info None
                                         (''Next run scheduled at: '' @ nextRunTime @ '' (in ''
                                            @ show_int hoursUntilNextRun @ ''h ''
                                            @ show_int minutesUntilNextRun @ ''m)'')),
                                       Waited (of_int timeUntilNextRun)]
                                    @ tr2, x5))))))"

text \<open>
  How a run of \<open>main\<close> stands when the observation ends: it has returned, it has thrown,
  or it is still in its loop.
\<close>

datatype outcome = Returned | Threw "err option" | Running

text \<open>The \<open>try\<close> block of \<open>main\<close>.\<close>

definition main_try :: "'x env \<Rightarrow> nat \<Rightarrow> 'x \<Rightarrow> outcome \<times> event list \<times> 'x" where
  "main_try env c x =
     (case loadData env x of
        (Inl error, tr0, x0) \<Rightarrow> (Threw error, tr0, x0)
      | (Inr (accounts, proxies), tr0, x0) \<Rightarrow>
          if length accounts = 0 then
            (Returned, tr0 @ [Eff (Logged Error None ''No accounts found in data.txt'')], x0)
          else
            (let tr1 =
               [if length proxies = 0 then
                  Eff (Logged Warn None
                    ''No proxies found in proxy.txt, will proceed without proxies'')
                else
                  Eff (Logged Info None (''Loaded '' @ show_nat (length proxies) @ '' proxies'')),
                Eff (Logged Info None (''Loaded '' @ show_nat (length accounts) @ '' accounts''))]
             in case cycles env accounts proxies c x0 of
                  (tr2, x2) \<Rightarrow> (Running, tr0 @ tr1 @ tr2, x2)))"

text \<open>
  \<open>main\<close> around its \<open>try\<close> block: the \<open>catch\<close> clause logs, waits and calls \<open>main\<close> again.
  The \<open>try\<close> block is a parameter, so that the clause is defined for whatever the block
  throws; \<open>k\<close> bounds the number of calls of \<open>main\<close> that are observed. Reading \<open>message\<close> of
  a thrown \<open>undefined\<close> throws out of the clause.
\<close>

fun main_with ::
  "('x \<Rightarrow> outcome \<times> event list \<times> 'x) \<Rightarrow> nat \<Rightarrow> 'x \<Rightarrow> outcome \<times> event list \<times> 'x" where
  "main_with block 0 x = (Running, [], x)"
| "main_with block (Suc k) x =
     (case block x of
        (Threw mainError, tr, x1) \<Rightarrow>
          (case mainError of
             None \<Rightarrow> (Threw (Some (TypeError ''message'')), tr, x1)
           | Some e \<Rightarrow>
               (case main_with block k x1 of
                  (out, tr2, x2) \<Rightarrow>
                    (out,
                     tr @ [Eff (Logged Error None (''Critical error in main process: '' @ message e)),
                           Eff (Logged Info None ''Restarting main process in 60 seconds...''),
                           Waited 60000]
                        @ tr2,
                     x2)))
      | (out, tr, x1) \<Rightarrow> (out, tr, x1))"

definition main :: "'x env \<Rightarrow> nat \<Rightarrow> nat \<Rightarrow> 'x \<Rightarrow> outcome \<times> event list \<times> 'x" where
  "main env k c x = main_with (main_try env c) k x"


section \<open>The simpler variant\<close>

text \<open>
  The repository holds a second script, \<open>index.js\<close>, with the same functions and no retry
  policy. Its request function, its workflow and the loop of its scheduler are modelled
  here under their names with the suffix \<open>_index\<close>; its loaders are those above. The
  errors it throws carry a message only, so the workflow never rejects.
\<close>

definition proxyFetch_index ::
  "'x env \<Rightarrow> string \<Rightarrow> string \<Rightarrow> json option \<Rightarrow> (string \<times> string) list \<Rightarrow> string option
     \<Rightarrow> 'x \<Rightarrow> (err + json) \<times> event list \<times> 'x" where
  "proxyFetch_index env u m payloadData hs proxy x =
     (case build_request env u m payloadData hs proxy of
        Inl msg \<Rightarrow> (Inl (plain_error (''Request failed: '' @ msg)), [], x)
      | Inr options \<Rightarrow>
          (case fetch env options x of
             (Rejected msg, x') \<Rightarrow>
               (Inl (plain_error (''Request failed: '' @ msg)), [Eff (Fetched options)], x')
           | (Response st js, x') \<Rightarrow>
               if \<not> ok st then
                 (Inl (plain_error (''Request failed: '' @ ''HTTP error! Status: '' @ show_nat st)),
                  [Eff (Fetched options)], x')
               else
                 (case js of
                    Inl msg \<Rightarrow>
                      (Inl (plain_error (''Request failed: '' @ msg)), [Eff (Fetched options)], x')
                  | Inr v \<Rightarrow> (Inr v, [Eff (Fetched options)], x'))))"

definition loginAndCheckIn_index ::
  "'x env \<Rightarrow> string \<Rightarrow> string \<Rightarrow> string option \<Rightarrow> 'x \<Rightarrow> err option \<times> event list \<times> 'x" where
  "loginAndCheckIn_index env em pw proxy x =
     (let tr0 = [Eff (Logged Info (Some em) ''Attempting login'')];
          signInPayload = JObj [(''email'', JStr em), (''password'', JStr pw)];
          caught = (\<lambda>error tr y.
            (None, tr @ [Eff (Logged Error (Some em) (''Error during process: '' @ message error))], y))
      in case proxyFetch_index env signin_url ''POST'' (Some signInPayload) headersTemplate proxy x of
           (Inl error, tr1, x1) \<Rightarrow> caught error (tr0 @ tr1) x1
         | (Inr signIn, tr1, x1) \<Rightarrow>
             if truthy signIn \<and> truthy_opt (field ''accessToken'' signIn) then
               (let hs = headersTemplate
                      @ [(''Authorization'',
                          ''Bearer '' @ ToString_opt (Number_toString env) (field ''accessToken'' signIn))];
                    tr2 = tr0 @ tr1
                      @ [Eff (Logged Info (Some em) ''Login succeeded! Fetching user details...'')]
                in case proxyFetch_index env users_url ''GET'' None hs proxy x1 of
                     (Inl error, tr3, x2) \<Rightarrow> caught error (tr2 @ tr3) x2
                   | (Inr user, tr3, x2) \<Rightarrow>
                       (let uid = (if truthy user then field ''id'' user else None);
                            dipTokenBalance =
                              (if truthy user then field ''dipTokenBalance'' user else None)
                        in if truthy_opt uid then
                             (let tr4 = tr2 @ tr3
                                    @ [Eff (Logged Info (Some em)
                                         (''User id: '' @ ToString_opt (Number_toString env) uid
                                            @ '' | Current points: ''
                                            @ ToString_opt (Number_toString env) dipTokenBalance)),
                                       Eff (Logged Info (Some em) ''Attempting daily check-in...'')]
                              in case proxyFetch_index env
                                        (earn_url (ToString_opt (Number_toString env) uid))
                                        ''GET'' None hs proxy x2 of
                                   (Inr checkin, tr5, x3) \<Rightarrow>
                                     (None,
                                      tr4 @ tr5
                                        @ [if truthy checkin
                                              \<and> truthy_opt (field ''tokensToAward'' checkin) then
                                             Eff (Logged Info (Some em)
                                               (successMsg (ToString_opt (Number_toString env)
                                                  (field ''tokensToAward'' checkin))))
                                           else
                                             Eff (Logged Warn (Some em) ''Check-in not available yet.'')],
                                      x3)
                                 | (Inl checkinError, tr5, x3) \<Rightarrow>
                                     (None,
                                      tr4 @ tr5
                                        @ [Eff (Logged Error (Some em)
                                             (''Check-in failed: '' @ message checkinError))],
                                      x3))
                           else (None, tr2 @ tr3, x2)))
             else (None, tr0 @ tr1 @ [Eff (Logged Error (Some em) ''Login failed'')], x1))"

text \<open>The \<open>for\<close> loop of its \<open>main\<close>, from index \<open>i\<close>.\<close>

function account_loop_index ::
  "'x env \<Rightarrow> account list \<Rightarrow> string list \<Rightarrow> nat \<Rightarrow> 'x \<Rightarrow> event list \<times> 'x" where
  "account_loop_index env accounts proxies i x =
     (if i < length accounts then
        (let proxy = (if length proxies > 0 then Some (proxies ! (i mod length proxies)) else None)
         in case (email (accounts ! i), password (accounts ! i)) of
              (Some em, Some pw) \<Rightarrow>
                if em \<noteq> [] \<and> pw \<noteq> [] then
                  (case loginAndCheckIn_index env em pw proxy x of
                     (rejected, tr1, x1) \<Rightarrow>
                       (let tr2 =
                          (case rejected of
                             None \<Rightarrow> []
                           | Some e \<Rightarrow>
                               [Eff (Logged Error (Some em) (''Process failed: '' @ message e))])
                        in if i < length accounts - 1 then
                             (case Math_random env x1 of
                                (r, x2) \<Rightarrow>
                                  (let delay = 3000 + \<lfloor>r * 5000\<rfloor>
                                   in case account_loop_index env accounts proxies (i + 1) x2 of
                                        (tr3, x3) \<Rightarrow>
                                          (Invoked em pw proxy # tr1 @ tr2
                                             @ [Eff (Logged Info None
                                                  (''Waiting '' @ show_int delay
                                                     @ ''ms before next account...'')),
                                                Waited (of_int delay)]
                                             @ tr3, x3)))
                           else
                             (case account_loop_index env accounts proxies (i + 1) x1 of
                                (tr3, x3) \<Rightarrow> (Invoked em pw proxy # tr1 @ tr2 @ tr3, x3))))
                else account_loop_index env accounts proxies (i + 1) x
            | _ \<Rightarrow> account_loop_index env accounts proxies (i + 1) x)
      else ([], x))"
  by pat_completeness auto
termination
  by (relation "measure (\<lambda>(env, accounts, proxies, i, x). length accounts - i)") auto

declare account_loop_index.simps [simp del]

section \<open>Vocabulary for stating what the workflow and the scheduler did\<close>

text \<open>
  An event that a run of the workflow with the given proxy can produce: no call of the
  workflow, no file read, and, without a proxy, only requests without an agent.
\<close>

fun workflow_event :: "string option \<Rightarrow> event \<Rightarrow> bool" where
  "workflow_event proxy (Eff (Fetched req)) = (proxy = None \<longrightarrow> agent req = None)"
| "workflow_event proxy (Eff (FileRead name)) = False"
| "workflow_event proxy (Eff (Logged l em msg)) = True"
| "workflow_event proxy (Attempt k) = True"
| "workflow_event proxy (Waited w) = True"
| "workflow_event proxy (Invoked em pw q) = False"

text \<open>
  An event that one \<open>proxyFetch\<close> of the URL \<open>u\<close> can produce: an attempt, a wait, a request
  of that URL, or a warning of the retry loop.
\<close>

fun request_event :: "string \<Rightarrow> event \<Rightarrow> bool" where
  "request_event u (Eff (Fetched req)) = (url req = u)"
| "request_event u (Eff (FileRead name)) = False"
| "request_event u (Eff (Logged l em msg)) = (l = Warn \<and> em = None \<and> prefix ''Attempt '' msg)"
| "request_event u (Attempt k) = True"
| "request_event u (Waited w) = True"
| "request_event u (Invoked em pw q) = False"

text \<open>The requests of a trace, and the calls of the workflow, in order.\<close>

fun requests :: "event list \<Rightarrow> request list" where
  "requests [] = []"
| "requests (Eff (Fetched req) # tr) = req # requests tr"
| "requests (e # tr) = requests tr"

fun invocations :: "event list \<Rightarrow> (string \<times> string \<times> string option) list" where
  "invocations [] = []"
| "invocations (Invoked em pw proxy # tr) = (em, pw, proxy) # invocations tr"
| "invocations (e # tr) = invocations tr"

text \<open>The log entries of a trace, in order.\<close>

fun logged :: "event list \<Rightarrow> (level \<times> string option \<times> string) list" where
  "logged [] = []"
| "logged (Eff (Logged l em msg) # tr) = (l, em, msg) # logged tr"
| "logged (e # tr) = logged tr"

text \<open>An event of a run without proxies: a request has no agent, a call of the workflow
  no proxy.\<close>

fun direct_event :: "event \<Rightarrow> bool" where
  "direct_event (Eff (Fetched req)) = (agent req = None)"
| "direct_event (Invoked em pw q) = (q = None)"
| "direct_event e = True"

text \<open>The test \<open>email && password\<close> of the scheduler.\<close>

definition usable :: "account \<Rightarrow> bool" where
  "usable a = (truthy_str (email a) \<and> truthy_str (password a))"

text \<open>The proxy the scheduler computes for index \<open>i\<close>, as the specification words it.\<close>

definition round_robin :: "string list \<Rightarrow> nat \<Rightarrow> string option" where
  "round_robin proxies i = (if proxies = [] then None else Some (proxies ! (i mod length proxies)))"

section \<open>Example operations and environments\<close>

text \<open>
  Concrete inputs on which the theorems below are instantiated. \<open>example_op\<close> counts its
  calls in the world: the first fails with a retryable error, the second with an error
  flagged \<open>noRetry\<close>, every later one succeeds.
\<close>

definition example_error :: "bool \<Rightarrow> err" where
  "example_error flag = \<lparr>message = ''boom'', status = Some 400, noRetry = flag\<rparr>"

definition example_op :: "nat \<Rightarrow> (err + nat) \<times> effect list \<times> nat" where
  "example_op x =
     (if x = 0 then Inl (example_error False)
      else if x = 1 then Inl (example_error True)
      else Inr x,
      [], x + 1)"


text \<open>
  \<open>example_env\<close>: a service on which sign-in yields a token, the profile has identifier 7
  and the reward of the day is already claimed; a file of three credential lines and a
  file of two proxies. The world counts the calls of \<open>fetch\<close>.
\<close>

definition example_data :: string where
  "example_data =
     ''#comment'' @ [CHR 0x0A] @ [CHR 0x0A] @ ''a@x.com:pw1'' @ [CHR 0x0A]
       @ ''b@x.com:p:w2'' @ [CHR 0x0D, CHR 0x0A] @ ''nocolon''"

definition example_env :: "nat env" where
  "example_env =
     \<lparr>fetch = (\<lambda>req n.
        (if url req = signin_url then
           Response 200 (Inr (JObj [(''accessToken'', JStr ''tok'')]))
         else if url req = users_url then
           Response 200 (Inr (JObj [(''id'', JNum 7), (''dipTokenBalance'', JNum 12)]))
         else Response 400 (Inr JNull),
         n + 1)),
      HttpsProxyAgent = Inr,
      readFile = (\<lambda>name n.
        (if name = ''data.txt'' then Inr example_data else Inr (''p0'' @ [CHR 0x0A] @ ''p1''), n)),
      Math_random = (\<lambda>n. (1 / 2, n)),
      until_next_run = (\<lambda>m s n. ((18420001, ''tomorrow''), n)),
      Number_toString = (\<lambda>r. show_int \<lfloor>r\<rfloor>)\<rparr>"

text \<open>The same, with a network that is down, with a profile without identifier, with a
  reward of 5 to claim, with files that cannot be read, and with an empty proxy file.\<close>

definition offline_env :: "nat env" where
  "offline_env = example_env\<lparr>fetch := (\<lambda>req n. (Rejected ''connect ECONNREFUSED'', n + 1))\<rparr>"

definition anonymous_env :: "nat env" where
  "anonymous_env =
     example_env\<lparr>fetch := (\<lambda>req n.
        (if url req = signin_url then
           Response 200 (Inr (JObj [(''accessToken'', JStr ''tok'')]))
         else Response 200 (Inr (JObj [(''dipTokenBalance'', JNum 12)])),
         n + 1))\<rparr>"

definition rewarding_env :: "nat env" where
  "rewarding_env =
     example_env\<lparr>fetch := (\<lambda>req n.
        (if url req = signin_url then
           Response 200 (Inr (JObj [(''accessToken'', JStr ''tok'')]))
         else if url req = users_url then
           Response 200 (Inr (JObj [(''id'', JNum 7), (''dipTokenBalance'', JNum 12)]))
         else Response 200 (Inr (JObj [(''tokensToAward'', JNum 5)])),
         n + 1))\<rparr>"

definition unreadable_env :: "nat env" where
  "unreadable_env =
     example_env\<lparr>readFile := (\<lambda>name n. (Inl ''ENOENT: no such file or directory'', n))\<rparr>"

definition direct_env :: "nat env" where
  "direct_env =
     example_env\<lparr>readFile := (\<lambda>name n.
        (if name = ''data.txt'' then Inr example_data else Inr [], n))\<rparr>"

text \<open>Five accounts with credentials.\<close>

definition example_accounts :: "account list" where
  "example_accounts =
     map (\<lambda>name. \<lparr>email = Some (name @ ''@x.com''), password = Some ''pw''\<rparr>)
       [''a'', ''b'', ''c'', ''d'', ''e'']"

text \<open>A \<open>try\<close> block that throws on its first run and returns on the next.\<close>

definition example_block :: "nat \<Rightarrow> outcome \<times> event list \<times> nat" where
  "example_block x =
     (if x = 0 then (Threw (Some (example_error False)), [Eff (FileRead ''data.txt'')], 1)
      else (Returned, [Eff (FileRead ''data.txt'')], x))"

section \<open>Proofs: retry policy\<close>

lemma run_op_shift: "run_op fn x (Suc k) = run_op fn (state_of (fn x)) k"
  by (induction k) simp_all

lemma outcome_shift: "1 \<le> k \<Longrightarrow> outcome fn x (Suc k) = outcome fn (state_of (fn x)) k"
  using run_op_shift [of fn x "k - 1"] by (simp add: outcome_def)

lemma effects_shift: "1 \<le> k \<Longrightarrow> effects fn x (Suc k) = effects fn (state_of (fn x)) k"
  using run_op_shift [of fn x "k - 1"] by (simp add: effects_def)

lemma outcome_1: "outcome fn x (Suc 0) = fst (fn x)"
  by (simp add: outcome_def)

lemma effects_1: "effects fn x (Suc 0) = fst (snd (fn x))"
  by (simp add: effects_def)

lemma retry_events_Nil [simp]: "retry_events [] = []"
  by (simp add: retry_events_def)

lemma retry_events_map_Eff [simp]: "retry_events (map Eff evs) = []"
  by (induction evs) (simp_all add: retry_events_def)

lemma retry_events_append [simp]: "retry_events (xs @ ys) = retry_events xs @ retry_events ys"
  by (simp add: retry_events_def)

lemma retry_events_Attempt [simp]: "retry_events (Attempt k # xs) = Attempt k # retry_events xs"
  by (simp add: retry_events_def)

lemma retry_events_Waited [simp]: "retry_events (Waited w # xs) = Waited w # retry_events xs"
  by (simp add: retry_events_def)

lemma retry_events_warning [simp]: "retry_events (retry_warning k w e # xs) = retry_events xs"
  by (simp add: retry_events_def retry_warning_def)

text \<open>
  Both loops are instances of one scheme: a call that ends the loop, and a call after
  which the loop warns, waits and goes on.
\<close>

lemma retry_scheme_run:
  assumes stop: "\<And>a le x. a \<le> n \<Longrightarrow> \<not> again (fst (fn x)) \<or> a = n \<Longrightarrow>
      L a le x = (thrown (fst (fn x)), Attempt a # map Eff (fst (snd (fn x))), state_of (fn x))"
    and step: "\<And>a le x. a < n \<Longrightarrow> again (fst (fn x)) \<Longrightarrow>
      L a le x =
        (case L (a + 1) (Some (projl (fst (fn x)))) (state_of (fn x)) of
           (r, evs2, x'') \<Rightarrow>
             (r, Attempt a # map Eff (fst (snd (fn x)))
                   @ [retry_warning a (d * (3 / 2) ^ (a - 1)) (projl (fst (fn x))),
                      Waited (d * (3 / 2) ^ (a - 1))]
                   @ evs2, x''))"
  shows "a \<le> n \<Longrightarrow> \<exists>j. retry_run again fn n d a x (L a le x) j"
proof (induction "n - a" arbitrary: a x le)
  case 0
  then have an: "a = n" by simp
  then have "L a le x = (thrown (fst (fn x)), Attempt a # map Eff (fst (snd (fn x))), state_of (fn x))"
    using stop [of a x le] by simp
  with an have "retry_run again fn n d a x (L a le x) 1"
    by (simp add: retry_run_def trace_of_def state_of_def outcome_1 effects_1)
  then show ?case ..
next
  case (Suc m)
  then have an: "a < n" by simp
  show ?case
  proof (cases "again (fst (fn x))")
    case False
    then have "L a le x = (thrown (fst (fn x)), Attempt a # map Eff (fst (snd (fn x))), state_of (fn x))"
      using stop [of a x le] an by simp
    with an False have "retry_run again fn n d a x (L a le x) 1"
      by (simp add: retry_run_def trace_of_def state_of_def outcome_1 effects_1)
    then show ?thesis ..
  next
    case True
    define x' where "x' = state_of (fn x)"
    define e where "e = projl (fst (fn x))"
    from step [OF an True] have
      unf0: "L a le x =
        (case L (a + 1) (Some e) x' of
           (r, evs2, x'') \<Rightarrow>
             (r, Attempt a # map Eff (fst (snd (fn x)))
                   @ [retry_warning a (d * (3 / 2) ^ (a - 1)) e, Waited (d * (3 / 2) ^ (a - 1))]
                   @ evs2, x''))"
      unfolding x'_def e_def by simp
    from Suc an have "m = n - (a + 1)" "a + 1 \<le> n" by simp_all
    from Suc.hyps(1) [OF this] obtain j
      where j: "retry_run again fn n d (a + 1) x' (L (a + 1) (Some e) x') j"
      by blast
    obtain r2 evs2 x2 where rec: "L (a + 1) (Some e) x' = (r2, evs2, x2)"
      by (cases "L (a + 1) (Some e) x'")
    have unf: "L a le x =
        (r2, Attempt a # map Eff (fst (snd (fn x)))
               @ [retry_warning a (d * (3 / 2) ^ (a - 1)) e, Waited (d * (3 / 2) ^ (a - 1))]
               @ evs2, x2)"
      using unf0 rec by simp
    from j rec have j1: "1 \<le> j" and j2: "a + 1 + j \<le> n + 1"
      and j3: "retry_events evs2 = schedule d (a + 1) j"
      and j4: "\<forall>k. 1 \<le> k \<and> k < j \<longrightarrow> again (outcome fn x' k)"
      and j5: "r2 = thrown (outcome fn x' j)"
      and j6: "a + 1 + j = n + 1 \<or> \<not> again (outcome fn x' j)"
      and j7: "x2 = run_op fn x' j"
      and j8: "\<exists>pre. evs2 = pre @ Attempt (a + 1 + j - 1) # map Eff (effects fn x' j)"
      by (simp_all add: retry_run_def trace_of_def state_of_def)
    have o: "outcome fn x (Suc j) = outcome fn x' j"
      and ef: "effects fn x (Suc j) = effects fn x' j"
      using j1 by (simp_all add: outcome_shift effects_shift x'_def)
    have c1: "retry_events (trace_of (L a le x)) = schedule d a (Suc j)"
      using j1 j3 by (simp add: unf trace_of_def)
    have c2: "\<forall>k. 1 \<le> k \<and> k < Suc j \<longrightarrow> again (outcome fn x k)"
    proof (intro allI impI)
      fix k assume k: "1 \<le> k \<and> k < Suc j"
      show "again (outcome fn x k)"
      proof (cases "k = 1")
        case True
        then show ?thesis using \<open>again (fst (fn x))\<close> by (simp add: outcome_1)
      next
        case False
        then obtain k' where k': "k = Suc k'" "1 \<le> k'" using k by (cases k) auto
        with k j4 have "again (outcome fn x' k')" by simp
        then show ?thesis using k' by (simp add: outcome_shift x'_def)
      qed
    qed
    from j8 obtain pre where pre: "evs2 = pre @ Attempt (a + 1 + j - 1) # map Eff (effects fn x' j)"
      by blast
    have c8: "\<exists>pre'. trace_of (L a le x)
          = pre' @ Attempt (a + Suc j - 1) # map Eff (effects fn x (Suc j))"
      by (rule exI [of _ "Attempt a # map Eff (fst (snd (fn x)))
              @ [retry_warning a (d * (3 / 2) ^ (a - 1)) e, Waited (d * (3 / 2) ^ (a - 1))] @ pre"])
         (simp add: unf trace_of_def pre ef)
    have "retry_run again fn n d a x (L a le x) (Suc j)"
      unfolding retry_run_def
      using c1 c2 c8 j2 j5 j6 j7 o
      by (simp add: unf state_of_def x'_def run_op_shift [of fn x j] del: run_op.simps)
    then show ?thesis ..
  qed
qed

lemma withRetry_loop_done:
  "\<not> a \<le> n \<Longrightarrow> withRetry_loop fn n d a le x = (Inl le, [], x)"
  by (subst withRetry_loop.simps) simp

lemma withSelectiveRetry_loop_done:
  "\<not> a \<le> n \<Longrightarrow> withSelectiveRetry_loop fn n d a le x = (Inl le, [], x)"
  by (subst withSelectiveRetry_loop.simps) simp

lemma withRetry_loop_stop:
  assumes "a \<le> n" and "\<not> failure (fst (fn x)) \<or> a = n"
  shows "withRetry_loop fn n d a le x =
      (thrown (fst (fn x)), Attempt a # map Eff (fst (snd (fn x))), state_of (fn x))"
  using assms
  by (subst withRetry_loop.simps)
     (auto simp: failure_def thrown_def state_of_def withRetry_loop_done
        split: prod.splits sum.splits)

lemma withRetry_loop_step:
  assumes "a < n" and "failure (fst (fn x))"
  shows "withRetry_loop fn n d a le x =
        (case withRetry_loop fn n d (a + 1) (Some (projl (fst (fn x)))) (state_of (fn x)) of
           (r, evs2, x'') \<Rightarrow>
             (r, Attempt a # map Eff (fst (snd (fn x)))
                   @ [retry_warning a (d * (3 / 2) ^ (a - 1)) (projl (fst (fn x))),
                      Waited (d * (3 / 2) ^ (a - 1))]
                   @ evs2, x''))"
  using assms
  by (subst withRetry_loop.simps)
     (auto simp: failure_def state_of_def Let_def split: prod.splits sum.splits)

lemma withSelectiveRetry_loop_stop:
  assumes "a \<le> n" and "\<not> retryable_failure (fst (fn x)) \<or> a = n"
  shows "withSelectiveRetry_loop fn n d a le x =
      (thrown (fst (fn x)), Attempt a # map Eff (fst (snd (fn x))), state_of (fn x))"
  using assms
  by (subst withSelectiveRetry_loop.simps)
     (auto simp: retryable_failure_def thrown_def state_of_def withSelectiveRetry_loop_done
        split: prod.splits sum.splits)

lemma withSelectiveRetry_loop_step:
  assumes "a < n" and "retryable_failure (fst (fn x))"
  shows "withSelectiveRetry_loop fn n d a le x =
        (case withSelectiveRetry_loop fn n d (a + 1) (Some (projl (fst (fn x)))) (state_of (fn x)) of
           (r, evs2, x'') \<Rightarrow>
             (r, Attempt a # map Eff (fst (snd (fn x)))
                   @ [retry_warning a (d * (3 / 2) ^ (a - 1)) (projl (fst (fn x))),
                      Waited (d * (3 / 2) ^ (a - 1))]
                   @ evs2, x''))"
  using assms
  by (subst withSelectiveRetry_loop.simps)
     (auto simp: retryable_failure_def state_of_def Let_def split: prod.splits sum.splits)

lemma withRetry_loop_run:
  assumes "a \<le> n"
  shows "\<exists>j. retry_run failure fn n d a x (withRetry_loop fn n d a le x) j"
  by (rule retry_scheme_run [where L = "withRetry_loop fn n d", OF _ _ assms])
     (simp_all add: withRetry_loop_stop withRetry_loop_step)

lemma withSelectiveRetry_loop_run:
  assumes "a \<le> n"
  shows "\<exists>j. retry_run retryable_failure fn n d a x (withSelectiveRetry_loop fn n d a le x) j"
  by (rule retry_scheme_run [where L = "withSelectiveRetry_loop fn n d", OF _ _ assms])
     (simp_all add: withSelectiveRetry_loop_stop withSelectiveRetry_loop_step)

lemma attempts_append [simp]: "attempts (xs @ ys) = attempts xs @ attempts ys"
  by (induction xs rule: attempts.induct) simp_all

lemma waits_append [simp]: "waits (xs @ ys) = waits xs @ waits ys"
  by (induction xs rule: waits.induct) simp_all

lemma attempts_map_Eff [simp]: "attempts (map Eff evs) = []"
  by (induction evs) simp_all

lemma waits_map_Eff [simp]: "waits (map Eff evs) = []"
  by (induction evs) simp_all

lemma attempts_retry_events: "attempts (retry_events tr) = attempts tr"
  by (induction tr rule: attempts.induct) (simp_all add: retry_events_def)

lemma waits_retry_events: "waits (retry_events tr) = waits tr"
  by (induction tr rule: waits.induct) (simp_all add: retry_events_def)

lemma attempts_schedule: "attempts (schedule d a j) = [a..<a + j]"
proof (induction j arbitrary: a)
  case 0
  show ?case by simp
next
  case (Suc j)
  show ?case
  proof (cases "j = 0")
    case True
    then show ?thesis by simp
  next
    case False
    then show ?thesis using Suc [of "a + 1"] by (simp add: upt_rec [of a])
  qed
qed

lemma waits_schedule:
  "waits (schedule d a j) = map (\<lambda>k. d * (3 / 2) ^ (k - 1)) [a..<a + j - 1]"
proof (induction j arbitrary: a)
  case 0
  show ?case by simp
next
  case (Suc j)
  show ?case
  proof (cases "j = 0")
    case True
    then show ?thesis by simp
  next
    case False
    then have "[a..<a + Suc j - 1] = a # [a + 1..<a + 1 + j - 1]"
      by (simp add: upt_rec [of a])
    then show ?thesis using False Suc [of "a + 1"] by simp
  qed
qed

lemma retry_run_shape:
  assumes "retry_run again fn n d 1 x p j"
  shows "attempts (trace_of p) = [1..<Suc j]"
    and "waits (trace_of p) = map (\<lambda>k. d * (3 / 2) ^ (k - 1)) [1..<j]"
proof -
  from assms have s: "retry_events (trace_of p) = schedule d 1 j"
    by (simp add: retry_run_def)
  show "attempts (trace_of p) = [1..<Suc j]"
    using attempts_retry_events [of "trace_of p"] attempts_schedule [of d 1 j] s by simp
  show "waits (trace_of p) = map (\<lambda>k. d * (3 / 2) ^ (k - 1)) [1..<j]"
    using waits_retry_events [of "trace_of p"] waits_schedule [of d 1 j] s by simp
qed

lemma thrown_failure: "failure r \<Longrightarrow> thrown r = Inl (Some (projl r))"
  by (cases r) (simp_all add: failure_def thrown_def)

lemma retryable_failure_failure: "retryable_failure r \<Longrightarrow> failure r"
  by (cases r) (simp_all add: failure_def retryable_failure_def)

lemma policy_run:
  assumes "1 \<le> n"
    and "(policy = withRetry \<and> again = failure)
       \<or> (policy = withSelectiveRetry \<and> again = retryable_failure)"
  shows "\<exists>j. retry_run again fn n d 1 x (policy fn n d x) j"
  using assms withRetry_loop_run [of 1 n fn d x None]
    withSelectiveRetry_loop_run [of 1 n fn d x None]
  by (auto simp: withRetry_def [abs_def] withSelectiveRetry_def [abs_def])

text \<open>
  C1. Both retry loops (\<open>withRetry\<close>, and \<open>withSelectiveRetry\<close> inside \<open>proxyFetch\<close>), for
  every operation \<open>fn\<close>, every \<open>n \<ge> 1\<close> and every base delay \<open>d\<close>: the operation is called
  \<open>j\<close> times, attempts \<open>1, \<dots>, j\<close>, with \<open>1 \<le> j \<le> n\<close>; the loop waits exactly between
  consecutive attempts, \<open>d \<times> 1.5^(k - 1)\<close> before attempt \<open>k + 1\<close>; every attempt before the
  last made failed (retryably), and the loop stops before attempt \<open>n\<close> only on an outcome
  after which it does not try again; the result is that of the last attempt made, so
  when all attempts fail the policy fails with the error of the most recent one.
  Here \<open>again\<close> is the kind of outcome after which the policy tries again: any failure
  for \<open>withRetry\<close>, a failure not flagged \<open>noRetry\<close> for \<open>withSelectiveRetry\<close>.
\<close>

theorem retry_policy_attempts_backoff_last_error:
  fixes fn :: "'x \<Rightarrow> (err + 'a) \<times> effect list \<times> 'x"
  assumes "1 \<le> n"
    and "(policy = withRetry \<and> again = failure)
       \<or> (policy = withSelectiveRetry \<and> again = retryable_failure)"
  shows "\<exists>j. 1 \<le> j \<and> j \<le> n
     \<and> attempts (trace_of (policy fn n d x)) = [1..<Suc j]
     \<and> waits (trace_of (policy fn n d x)) = map (\<lambda>k. d * (3 / 2) ^ (k - 1)) [1..<j]
     \<and> retry_events (trace_of (policy fn n d x)) = schedule d 1 j
     \<and> (\<forall>k. 1 \<le> k \<and> k < j \<longrightarrow> again (outcome fn x k))
     \<and> (j < n \<longrightarrow> \<not> again (outcome fn x j))
     \<and> fst (policy fn n d x) = thrown (outcome fn x j)
     \<and> ((\<forall>k. 1 \<le> k \<and> k \<le> n \<longrightarrow> failure (outcome fn x k)) \<longrightarrow>
          fst (policy fn n d x) = Inl (Some (projl (outcome fn x j))))
     \<and> ((\<forall>k. 1 \<le> k \<and> k \<le> n \<longrightarrow> again (outcome fn x k)) \<longrightarrow> j = n)"
proof -
  from policy_run [OF assms] obtain j
    where run: "retry_run again fn n d 1 x (policy fn n d x) j" by blast
  then have b: "1 \<le> j" "j \<le> n"
    and s: "retry_events (trace_of (policy fn n d x)) = schedule d 1 j"
    and before: "\<forall>k. 1 \<le> k \<and> k < j \<longrightarrow> again (outcome fn x k)"
    and res: "fst (policy fn n d x) = thrown (outcome fn x j)"
    and last: "j = n \<or> \<not> again (outcome fn x j)"
    by (simp_all add: retry_run_def)
  have allfail: "(\<forall>k. 1 \<le> k \<and> k \<le> n \<longrightarrow> failure (outcome fn x k)) \<longrightarrow>
      fst (policy fn n d x) = Inl (Some (projl (outcome fn x j)))"
    using b res by (simp add: thrown_failure)
  have alln: "(\<forall>k. 1 \<le> k \<and> k \<le> n \<longrightarrow> again (outcome fn x k)) \<longrightarrow> j = n"
    using b last by blast
  have lt: "j < n \<longrightarrow> \<not> again (outcome fn x j)"
    using last by auto
  show ?thesis
    using b retry_run_shape [OF run] s before lt res allfail alln by blast
qed

text \<open>
  C2. In \<open>withSelectiveRetry\<close>, if attempt \<open>k \<le> n\<close> is reached and fails with an error
  flagged \<open>noRetry\<close>, the policy fails with that error at once: attempts \<open>1, \<dots>, k\<close> are
  the only ones made, the only waits are the \<open>k - 1\<close> before attempt \<open>k\<close>, and the trace
  ends with attempt \<open>k\<close> and the effects of the operation, whatever \<open>n\<close> is.
\<close>

theorem nonretryable_failure_halts:
  fixes fn :: "'x \<Rightarrow> (err + 'a) \<times> effect list \<times> 'x"
  assumes "1 \<le> k" and "k \<le> n"
    and "\<forall>i. 1 \<le> i \<and> i < k \<longrightarrow> retryable_failure (outcome fn x i)"
    and "outcome fn x k = Inl e" and "noRetry e"
  shows "fst (withSelectiveRetry fn n d x) = Inl (Some e)
     \<and> attempts (trace_of (withSelectiveRetry fn n d x)) = [1..<Suc k]
     \<and> waits (trace_of (withSelectiveRetry fn n d x)) = map (\<lambda>i. d * (3 / 2) ^ (i - 1)) [1..<k]
     \<and> (\<exists>pre. trace_of (withSelectiveRetry fn n d x) = pre @ Attempt k # map Eff (effects fn x k))
     \<and> state_of (withSelectiveRetry fn n d x) = run_op fn x k"
proof -
  from assms have n: "1 \<le> n" by simp
  from withSelectiveRetry_loop_run [OF n, of fn d x None] obtain j
    where run: "retry_run retryable_failure fn n d 1 x (withSelectiveRetry fn n d x) j"
    by (auto simp: withSelectiveRetry_def)
  then have b: "1 \<le> j" "j \<le> n"
    and before: "\<forall>i. 1 \<le> i \<and> i < j \<longrightarrow> retryable_failure (outcome fn x i)"
    and res: "fst (withSelectiveRetry fn n d x) = thrown (outcome fn x j)"
    and last: "j = n \<or> \<not> retryable_failure (outcome fn x j)"
    and st: "state_of (withSelectiveRetry fn n d x) = run_op fn x j"
    and tail: "\<exists>pre. trace_of (withSelectiveRetry fn n d x)
        = pre @ Attempt (1 + j - 1) # map Eff (effects fn x j)"
    by (simp_all add: retry_run_def)
  have nr: "\<not> retryable_failure (outcome fn x k)"
    using assms(4,5) by (simp add: retryable_failure_def)
  have "j = k"
  proof (rule ccontr)
    assume ne: "j \<noteq> k"
    show False
    proof (cases "j < k")
      case True
      with b assms(3) have "retryable_failure (outcome fn x j)" by simp
      with last have "j = n" by simp
      with True assms(2) show False by simp
    next
      case False
      with ne have "k < j" by simp
      with assms(1) before have "retryable_failure (outcome fn x k)" by simp
      with nr show False by simp
    qed
  qed
  with res assms(4) st tail retry_run_shape [OF run] show ?thesis
    by (simp add: thrown_def)
qed


lemma example_op_outcomes:
  "outcome example_op 0 1 = Inl (example_error False)"
  "outcome example_op 0 2 = Inl (example_error True)"
  "outcome example_op 0 3 = Inr 2"
  by (simp_all add: outcome_def example_op_def state_of_def numeral_2_eq_2)

lemma example_withRetry_run:
  "withRetry example_op 3 2000 0 =
     (Inr 2,
      [Attempt 1, retry_warning 1 2000 (example_error False), Waited 2000,
       Attempt 2, retry_warning 2 3000 (example_error True), Waited 3000,
       Attempt 3],
      3)"
  by code_simp

lemma example_withSelectiveRetry_run:
  "withSelectiveRetry example_op 3 2000 0 =
     (Inl (Some (example_error True)),
      [Attempt 1, retry_warning 1 2000 (example_error False), Waited 2000, Attempt 2],
      2)"
  by code_simp

lemma example_retry_warning:
  "retry_warning 2 3000 (example_error True) =
     Eff (Logged Warn None ''Attempt 2 failed. Retrying in 3s... Error: boom'')"
  by code_simp

theorem retry_policy_attempts_backoff_last_error_witness:
  "(\<exists>j. 1 \<le> j \<and> j \<le> (3::nat)
     \<and> attempts (trace_of (withRetry example_op 3 2000 0)) = [1..<Suc j]
     \<and> waits (trace_of (withRetry example_op 3 2000 0)) = map (\<lambda>k. 2000 * (3 / 2) ^ (k - 1)) [1..<j]
     \<and> retry_events (trace_of (withRetry example_op 3 2000 0)) = schedule 2000 1 j
     \<and> (\<forall>k. 1 \<le> k \<and> k < j \<longrightarrow> failure (outcome example_op 0 k))
     \<and> (j < 3 \<longrightarrow> \<not> failure (outcome example_op 0 j))
     \<and> fst (withRetry example_op 3 2000 0) = thrown (outcome example_op 0 j)
     \<and> ((\<forall>k. 1 \<le> k \<and> k \<le> 3 \<longrightarrow> failure (outcome example_op 0 k)) \<longrightarrow>
          fst (withRetry example_op 3 2000 0) = Inl (Some (projl (outcome example_op 0 j))))
     \<and> ((\<forall>k. 1 \<le> k \<and> k \<le> 3 \<longrightarrow> failure (outcome example_op 0 k)) \<longrightarrow> j = 3))
   \<and> (\<exists>j. 1 \<le> j \<and> j \<le> (3::nat)
     \<and> attempts (trace_of (withSelectiveRetry example_op 3 2000 0)) = [1..<Suc j]
     \<and> waits (trace_of (withSelectiveRetry example_op 3 2000 0))
         = map (\<lambda>k. 2000 * (3 / 2) ^ (k - 1)) [1..<j]
     \<and> retry_events (trace_of (withSelectiveRetry example_op 3 2000 0)) = schedule 2000 1 j
     \<and> (\<forall>k. 1 \<le> k \<and> k < j \<longrightarrow> retryable_failure (outcome example_op 0 k))
     \<and> (j < 3 \<longrightarrow> \<not> retryable_failure (outcome example_op 0 j))
     \<and> fst (withSelectiveRetry example_op 3 2000 0) = thrown (outcome example_op 0 j)
     \<and> ((\<forall>k. 1 \<le> k \<and> k \<le> 3 \<longrightarrow> failure (outcome example_op 0 k)) \<longrightarrow>
          fst (withSelectiveRetry example_op 3 2000 0)
            = Inl (Some (projl (outcome example_op 0 j))))
     \<and> ((\<forall>k. 1 \<le> k \<and> k \<le> 3 \<longrightarrow> retryable_failure (outcome example_op 0 k)) \<longrightarrow> j = 3))"
proof -
  have n: "1 \<le> (3::nat)" by simp
  have p: "(withRetry = (withRetry :: (nat \<Rightarrow> (err + nat) \<times> effect list \<times> nat) \<Rightarrow> _)
              \<and> failure = (failure :: err + nat \<Rightarrow> bool))
         \<or> ((withRetry :: (nat \<Rightarrow> (err + nat) \<times> effect list \<times> nat) \<Rightarrow> _) = withSelectiveRetry
              \<and> (failure :: err + nat \<Rightarrow> bool) = retryable_failure)"
    by simp
  have q: "((withSelectiveRetry :: (nat \<Rightarrow> (err + nat) \<times> effect list \<times> nat) \<Rightarrow> _) = withRetry
              \<and> (retryable_failure :: err + nat \<Rightarrow> bool) = failure)
         \<or> (withSelectiveRetry = (withSelectiveRetry :: (nat \<Rightarrow> (err + nat) \<times> effect list \<times> nat) \<Rightarrow> _)
              \<and> retryable_failure = (retryable_failure :: err + nat \<Rightarrow> bool))"
    by simp
  show ?thesis
    by (rule conjI)
       (rule retry_policy_attempts_backoff_last_error [OF n p],
        rule retry_policy_attempts_backoff_last_error [OF n q])
qed

theorem nonretryable_failure_halts_witness:
  "fst (withSelectiveRetry example_op 3 2000 0) = Inl (Some (example_error True))
     \<and> attempts (trace_of (withSelectiveRetry example_op 3 2000 0)) = [1..<Suc 2]
     \<and> waits (trace_of (withSelectiveRetry example_op 3 2000 0))
         = map (\<lambda>i. 2000 * (3 / 2) ^ (i - 1)) [1..<2]
     \<and> (\<exists>pre. trace_of (withSelectiveRetry example_op 3 2000 0)
           = pre @ Attempt 2 # map Eff (effects example_op 0 2))
     \<and> state_of (withSelectiveRetry example_op 3 2000 0) = run_op example_op 0 2"
proof -
  have k: "1 \<le> (2::nat)" "(2::nat) \<le> 3" by simp_all
  have before: "\<forall>i. 1 \<le> i \<and> i < (2::nat) \<longrightarrow> retryable_failure (outcome example_op 0 i)"
  proof (intro allI impI)
    fix i :: nat
    assume "1 \<le> i \<and> i < 2"
    then have "i = 1" by simp
    then show "retryable_failure (outcome example_op 0 i)"
      using example_op_outcomes(1) by (simp add: retryable_failure_def example_error_def)
  qed
  have flagged: "noRetry (example_error True)" by (simp add: example_error_def)
  show ?thesis
    by (rule nonretryable_failure_halts [OF k before example_op_outcomes(2) flagged])
qed

section \<open>Proofs: request executor\<close>

lemma includes_str_appendI: "includes_str s t \<Longrightarrow> includes_str (s @ r) t"
proof (induction s)
  case Nil
  then show ?case by (cases r) simp_all
next
  case (Cons c cs)
  from Cons.prems have "prefix t (c # cs) \<or> includes_str cs t" by simp
  then show ?case
  proof
    assume "prefix t (c # cs)"
    then have "prefix t (c # (cs @ r))" using prefix_prefix [of t "c # cs" r] by simp
    then show ?thesis by simp
  next
    assume "includes_str cs t"
    then show ?thesis using Cons.IH by simp
  qed
qed

lemma signin_url_not_earn: "\<not> includes_str signin_url ''/users/earn/''"
  by (simp add: signin_url_def)

lemma users_url_not_earn: "\<not> includes_str users_url ''/users/earn/''"
  by (simp add: users_url_def)

lemma earn_url_earn: "includes_str (earn_url uid) ''/users/earn/''"
  unfolding earn_url_def by (rule includes_str_appendI) simp

lemma executeFetch_http_error:
  assumes "build_request env u m pd hs proxy = Inr req"
    and "fetch env req x = (Response st js, x')" and "\<not> ok st"
  shows "executeFetch env u m pd hs proxy x =
     (Inl \<lparr>message = ''Request failed: HTTP error! Status: '' @ show_nat st,
           status = (if st \<noteq> 0 then Some st else None),
           noRetry = (includes_str u ''/users/earn/'' \<and> st = 400)\<rparr>,
      [Fetched req], x')"
  using assms by (simp add: executeFetch_def enhancedError_def)

lemma executeFetch_exception:
  assumes "build_request env u m pd hs proxy = Inl msg
     \<or> (\<exists>req x'. build_request env u m pd hs proxy = Inr req \<and> fetch env req x = (Rejected msg, x'))
     \<or> (\<exists>req st x'. build_request env u m pd hs proxy = Inr req
           \<and> fetch env req x = (Response st (Inl msg), x') \<and> ok st)"
  shows "fst (executeFetch env u m pd hs proxy x) =
     Inl \<lparr>message = ''Request failed: '' @ msg, status = None, noRetry = False\<rparr>"
  using assms by (auto simp: executeFetch_def enhancedError_def plain_error_def)

lemma executeFetch_noRetry_iff:
  assumes "fst (executeFetch env u m pd hs proxy x) = Inl e"
  shows "noRetry e \<longleftrightarrow>
     includes_str u ''/users/earn/''
     \<and> (\<exists>req js x'. build_request env u m pd hs proxy = Inr req
           \<and> fetch env req x = (Response 400 js, x'))"
  using assms
  by (auto simp: executeFetch_def enhancedError_def plain_error_def ok_def
      split: sum.splits prod.splits fetch_result.splits if_splits)


text \<open>
  C3. One attempt of the request executor. A response whose status is not 2xx makes the
  attempt fail with an error that carries the status (a positive number, as every HTTP
  status is), flagged \<open>noRetry\<close> exactly when the status is 400 and the URL contains
  \<open>/users/earn/\<close>. An exception of the agent's constructor, of \<open>fetch\<close> or of
  \<open>response.json()\<close> makes it fail with an error without status and without flag. So a
  failure is flagged exactly when it comes from a 400 response on such a URL; of the
  three URLs the workflow requests, only that of the reward claim is one.
\<close>

theorem request_executor_failure_classification:
  "(\<forall>req st js x'.
      build_request env u m pd hs proxy = Inr req \<and> fetch env req x = (Response st js, x')
        \<and> \<not> ok st \<and> 0 < st \<longrightarrow>
      (\<exists>e. fst (executeFetch env u m pd hs proxy x) = Inl e \<and> status e = Some st
          \<and> (noRetry e \<longleftrightarrow> st = 400 \<and> includes_str u ''/users/earn/'')))
   \<and> (\<forall>msg.
        (build_request env u m pd hs proxy = Inl msg
         \<or> (\<exists>req x'. build_request env u m pd hs proxy = Inr req
               \<and> fetch env req x = (Rejected msg, x'))
         \<or> (\<exists>req st x'. build_request env u m pd hs proxy = Inr req
               \<and> fetch env req x = (Response st (Inl msg), x') \<and> ok st)) \<longrightarrow>
        fst (executeFetch env u m pd hs proxy x)
          = Inl \<lparr>message = ''Request failed: '' @ msg, status = None, noRetry = False\<rparr>)
   \<and> (\<forall>e. fst (executeFetch env u m pd hs proxy x) = Inl e \<longrightarrow>
        (noRetry e \<longleftrightarrow>
           includes_str u ''/users/earn/''
           \<and> (\<exists>req js x'. build_request env u m pd hs proxy = Inr req
                 \<and> fetch env req x = (Response 400 js, x'))))
   \<and> \<not> includes_str signin_url ''/users/earn/''
   \<and> \<not> includes_str users_url ''/users/earn/''
   \<and> (\<forall>uid. includes_str (earn_url uid) ''/users/earn/'')"
proof (intro conjI allI impI)
  fix req st js x'
  assume a: "build_request env u m pd hs proxy = Inr req \<and> fetch env req x = (Response st js, x')
      \<and> \<not> ok st \<and> 0 < st"
  then have "executeFetch env u m pd hs proxy x =
     (Inl \<lparr>message = ''Request failed: HTTP error! Status: '' @ show_nat st,
           status = (if st \<noteq> 0 then Some st else None),
           noRetry = (includes_str u ''/users/earn/'' \<and> st = 400)\<rparr>,
      [Fetched req], x')"
    using executeFetch_http_error [of env u m pd hs proxy req x st js x'] by simp
  with a show "\<exists>e. fst (executeFetch env u m pd hs proxy x) = Inl e \<and> status e = Some st
      \<and> (noRetry e \<longleftrightarrow> st = 400 \<and> includes_str u ''/users/earn/'')"
    by auto
next
  fix msg
  assume "build_request env u m pd hs proxy = Inl msg
     \<or> (\<exists>req x'. build_request env u m pd hs proxy = Inr req \<and> fetch env req x = (Rejected msg, x'))
     \<or> (\<exists>req st x'. build_request env u m pd hs proxy = Inr req
           \<and> fetch env req x = (Response st (Inl msg), x') \<and> ok st)"
  then show "fst (executeFetch env u m pd hs proxy x)
      = Inl \<lparr>message = ''Request failed: '' @ msg, status = None, noRetry = False\<rparr>"
    by (rule executeFetch_exception)
next
  fix e
  assume "fst (executeFetch env u m pd hs proxy x) = Inl e"
  then show "noRetry e \<longleftrightarrow>
       includes_str u ''/users/earn/''
       \<and> (\<exists>req js x'. build_request env u m pd hs proxy = Inr req
             \<and> fetch env req x = (Response 400 js, x'))"
    by (rule executeFetch_noRetry_iff)
next
  show "\<not> includes_str signin_url ''/users/earn/''" by (rule signin_url_not_earn)
  show "\<not> includes_str users_url ''/users/earn/''" by (rule users_url_not_earn)
  fix uid show "includes_str (earn_url uid) ''/users/earn/''" by (rule earn_url_earn)
qed

theorem request_executor_failure_classification_witness:
  "(\<exists>e. fst (executeFetch example_env (earn_url ''7'') ''GET'' None [] None 0) = Inl e
        \<and> status e = Some 400 \<and> noRetry e)
   \<and> fst (executeFetch offline_env signin_url ''POST'' None [] None 0)
       = Inl \<lparr>message = ''Request failed: connect ECONNREFUSED'', status = None, noRetry = False\<rparr>"
proof -
  let ?req = "\<lparr>url = earn_url ''7'', http_method = ''GET'', headers = [], body = None, agent = None\<rparr>"
  have b: "build_request example_env (earn_url ''7'') ''GET'' None [] None = Inr ?req"
    by (simp add: build_request_def truthy_opt_def)
  have f: "fetch example_env ?req 0 = (Response 400 (Inr JNull), 1)"
    by (simp add: example_env_def earn_url_def signin_url_def users_url_def)
  have h: "build_request example_env (earn_url ''7'') ''GET'' None [] None = Inr ?req
      \<and> fetch example_env ?req 0 = (Response 400 (Inr JNull), 1) \<and> \<not> ok 400 \<and> 0 < (400::nat)"
    using b f by (simp add: ok_def)
  have "\<exists>e. fst (executeFetch example_env (earn_url ''7'') ''GET'' None [] None 0) = Inl e
        \<and> status e = Some 400 \<and> (noRetry e \<longleftrightarrow> (400::nat) = 400 \<and> includes_str (earn_url ''7'') ''/users/earn/'')"
    by (rule request_executor_failure_classification
      [of example_env "earn_url ''7''" "''GET''" None "[]" None 0,
       THEN conjunct1, rule_format, OF h])
  then have first: "\<exists>e. fst (executeFetch example_env (earn_url ''7'') ''GET'' None [] None 0) = Inl e
        \<and> status e = Some 400 \<and> noRetry e"
    by (simp add: earn_url_earn)
  let ?req2 = "\<lparr>url = signin_url, http_method = ''POST'', headers = [], body = None, agent = None\<rparr>"
  have b2: "build_request offline_env signin_url ''POST'' None [] None = Inr ?req2"
    by (simp add: build_request_def truthy_opt_def)
  have f2: "fetch offline_env ?req2 0 = (Rejected ''connect ECONNREFUSED'', 1)"
    by (simp add: offline_env_def)
  have h2: "build_request offline_env signin_url ''POST'' None [] None = Inl ''connect ECONNREFUSED''
     \<or> (\<exists>req x'. build_request offline_env signin_url ''POST'' None [] None = Inr req
           \<and> fetch offline_env req 0 = (Rejected ''connect ECONNREFUSED'', x'))
     \<or> (\<exists>req st x'. build_request offline_env signin_url ''POST'' None [] None = Inr req
           \<and> fetch offline_env req 0 = (Response st (Inl ''connect ECONNREFUSED''), x') \<and> ok st)"
    by (rule disjI2, rule disjI1, rule exI [of _ ?req2], rule exI [of _ 1]) (simp only: b2 f2)
  have second: "fst (executeFetch offline_env signin_url ''POST'' None [] None 0)
       = Inl \<lparr>message = ''Request failed: connect ECONNREFUSED'', status = None, noRetry = False\<rparr>"
    using request_executor_failure_classification
      [of offline_env signin_url "''POST''" None "[]" None 0,
       THEN conjunct2, THEN conjunct1, rule_format, OF h2]
    by simp
  from first second show ?thesis by (rule conjI)
qed

section \<open>Proofs: events of the retry loops\<close>

lemma retry_scheme_events:
  assumes stop: "\<And>a le x. a \<le> n \<Longrightarrow> \<not> again (fst (fn x)) \<or> a = n \<Longrightarrow>
      L a le x = (thrown (fst (fn x)), Attempt a # map Eff (fst (snd (fn x))), state_of (fn x))"
    and step: "\<And>a le x. a < n \<Longrightarrow> again (fst (fn x)) \<Longrightarrow>
      L a le x =
        (case L (a + 1) (Some (projl (fst (fn x)))) (state_of (fn x)) of
           (r, evs2, x'') \<Rightarrow>
             (r, Attempt a # map Eff (fst (snd (fn x)))
                   @ [retry_warning a (d * (3 / 2) ^ (a - 1)) (projl (fst (fn x))),
                      Waited (d * (3 / 2) ^ (a - 1))]
                   @ evs2, x''))"
    and ok: "\<And>y ev. ev \<in> set (fst (snd (fn y))) \<Longrightarrow> P (Eff ev)"
    and P: "\<And>k. P (Attempt k)" "\<And>w. P (Waited w)" "\<And>k w e. P (retry_warning k w e)"
  shows "a \<le> n \<Longrightarrow> list_all P (trace_of (L a le x))"
proof (induction "n - a" arbitrary: a x le)
  case 0
  then have "a = n" by simp
  then have "L a le x = (thrown (fst (fn x)), Attempt a # map Eff (fst (snd (fn x))), state_of (fn x))"
    using stop [of a x le] by simp
  then show ?case using ok [of _ x] P by (simp add: trace_of_def list_all_iff)
next
  case (Suc m)
  then have an: "a < n" by simp
  show ?case
  proof (cases "again (fst (fn x))")
    case False
    then have "L a le x = (thrown (fst (fn x)), Attempt a # map Eff (fst (snd (fn x))), state_of (fn x))"
      using stop [of a x le] an by simp
    then show ?thesis using ok [of _ x] P by (simp add: trace_of_def list_all_iff)
  next
    case True
    from Suc an have "m = n - (a + 1)" "a + 1 \<le> n" by simp_all
    from Suc.hyps(1) [OF this]
    have ih: "list_all P (trace_of (L (a + 1) (Some (projl (fst (fn x)))) (state_of (fn x))))" .
    obtain r2 evs2 x2 where rec: "L (a + 1) (Some (projl (fst (fn x)))) (state_of (fn x)) = (r2, evs2, x2)"
      by (cases "L (a + 1) (Some (projl (fst (fn x)))) (state_of (fn x))")
    with ih have "list_all P evs2" by (simp add: trace_of_def)
    moreover have "L a le x =
        (r2, Attempt a # map Eff (fst (snd (fn x)))
               @ [retry_warning a (d * (3 / 2) ^ (a - 1)) (projl (fst (fn x))),
                  Waited (d * (3 / 2) ^ (a - 1))]
               @ evs2, x2)"
      using step [OF an True, of le] rec by simp
    ultimately show ?thesis using ok [of _ x] P by (auto simp: trace_of_def list_all_iff)
  qed
qed


lemma retry_warning_workflow_event [simp]: "workflow_event proxy (retry_warning k w e)"
  by (simp add: retry_warning_def)

lemma build_request_agent_None:
  "build_request env u m pd hs None = Inr req \<Longrightarrow> agent req = None"
  by (auto simp: build_request_def Let_def)

lemma build_request_url:
  "build_request env u m pd hs proxy = Inr req \<Longrightarrow> url req = u"
  by (auto simp: build_request_def Let_def split: option.splits if_splits sum.splits)

lemma executeFetch_effects:
  "ev \<in> set (fst (snd (executeFetch env u m pd hs proxy y))) \<Longrightarrow>
   \<exists>req. ev = Fetched req \<and> build_request env u m pd hs proxy = Inr req"
  by (auto simp: executeFetch_def split: sum.splits prod.splits fetch_result.splits if_splits)

text \<open>Every event of one \<open>proxyFetch\<close> satisfies \<open>P\<close>, if the loop's own events and a request
  built from the arguments do.\<close>

lemma proxyFetch_events:
  assumes "\<And>req. build_request env u m pd hs proxy = Inr req \<Longrightarrow> P (Eff (Fetched req))"
    and "\<And>k. P (Attempt k)" "\<And>w. P (Waited w)" "\<And>k w e. P (retry_warning k w e)"
  shows "list_all P (trace_of (proxyFetch env u m pd hs proxy x))"
  unfolding proxyFetch_def withSelectiveRetry_def
proof (rule retry_scheme_events
    [where L = "withSelectiveRetry_loop (executeFetch env u m pd hs proxy) 3 2000"
       and fn = "executeFetch env u m pd hs proxy" and n = 3 and d = 2000
       and again = retryable_failure and P = P])
  fix y ev
  assume "ev \<in> set (fst (snd (executeFetch env u m pd hs proxy y)))"
  from executeFetch_effects [OF this] obtain req
    where "ev = Fetched req" "build_request env u m pd hs proxy = Inr req" by auto
  then show "P (Eff ev)" using assms(1) by simp
qed (simp_all add: withSelectiveRetry_loop_stop withSelectiveRetry_loop_step assms)

lemma proxyFetch_workflow_events:
  "list_all (workflow_event proxy) (trace_of (proxyFetch env u m pd hs proxy x))"
  by (rule proxyFetch_events) (auto dest: build_request_agent_None)

lemma proxyFetch_workflow_events':
  "proxyFetch env u m pd hs proxy x = (r, tr, x') \<Longrightarrow> list_all (workflow_event proxy) tr"
  using proxyFetch_workflow_events [of proxy env u m pd hs x] by (simp add: trace_of_def)

section \<open>Proofs: account workflow\<close>

lemma checkin_report_events:
  "checkin_report env em checkin = Inr tr \<Longrightarrow> list_all (workflow_event proxy) tr"
  by (auto simp: checkin_report_def split: sum.splits option.splits if_splits)

lemma process_catch_events:
  "list_all (workflow_event proxy) tr \<Longrightarrow>
   list_all (workflow_event proxy) (trace_of (process_catch em error tr x))"
  by (auto simp: process_catch_def trace_of_def split: option.splits)

lemma loginAndCheckIn_workflow_events:
  "list_all (workflow_event proxy) (trace_of (loginAndCheckIn env em pw proxy x))"
proof -
  let ?pl = "Some (JObj [(''email'', JStr em), (''password'', JStr pw)])"
  obtain r1 tr1 x1 where f1:
    "proxyFetch env signin_url ''POST'' ?pl headersTemplate proxy x = (r1, tr1, x1)"
    by (cases "proxyFetch env signin_url ''POST'' ?pl headersTemplate proxy x")
  then have e1: "list_all (workflow_event proxy) tr1" by (rule proxyFetch_workflow_events')
  show ?thesis
  proof (cases r1)
    case (Inl error)
    then show ?thesis using f1 e1
      by (simp add: loginAndCheckIn_def process_catch_events)
  next
    case (Inr signIn)
    show ?thesis
    proof (cases "truthy signIn \<and> truthy_opt (field ''accessToken'' signIn)")
      case False
      then show ?thesis using f1 e1 Inr
        by (auto simp: loginAndCheckIn_def trace_of_def)
    next
      case True
      let ?hs = "headersTemplate
          @ [(''Authorization'',
              ''Bearer '' @ ToString_opt (Number_toString env) (field ''accessToken'' signIn))]"
      obtain r2 tr3 x2 where f2: "proxyFetch env users_url ''GET'' None ?hs proxy x1 = (r2, tr3, x2)"
        by (cases "proxyFetch env users_url ''GET'' None ?hs proxy x1")
      then have e2: "list_all (workflow_event proxy) tr3" by (rule proxyFetch_workflow_events')
      show ?thesis
      proof (cases r2)
        case (Inl error)
        then show ?thesis using f1 e1 Inr True f2 e2
          by (simp add: loginAndCheckIn_def process_catch_events)
      next
        case user: (Inr user)
        let ?uid = "if truthy user then field ''id'' user else None"
        show ?thesis
        proof (cases "truthy_opt ?uid")
          case False
          then show ?thesis using f1 e1 Inr True f2 e2 user
            by (simp add: loginAndCheckIn_def trace_of_def)
        next
          case uid: True
          obtain r3 tr5 x3 where f3:
            "proxyFetch env (earn_url (ToString_opt (Number_toString env) ?uid)) ''GET'' None ?hs proxy x2
               = (r3, tr5, x3)"
            by (cases "proxyFetch env (earn_url (ToString_opt (Number_toString env) ?uid)) ''GET'' None ?hs proxy x2")
          then have e3: "list_all (workflow_event proxy) tr5" by (rule proxyFetch_workflow_events')
          show ?thesis
          proof (cases "checkin_report env em r3")
            case (Inl error)
            then show ?thesis using f1 e1 Inr True f2 e2 user uid f3 e3
              by (simp add: loginAndCheckIn_def process_catch_events)
          next
            case rep: (Inr tr6)
            then show ?thesis using f1 e1 Inr True f2 e2 user uid f3 e3
                checkin_report_events [OF rep, of proxy]
              by (simp add: loginAndCheckIn_def trace_of_def)
          qed
        qed
      qed
    qed
  qed
qed


lemma retry_warning_request_event [simp]: "request_event u (retry_warning k w e)"
  by (simp add: retry_warning_def)

lemma proxyFetch_request_events:
  "list_all (request_event u) (trace_of (proxyFetch env u m pd hs proxy x))"
  by (rule proxyFetch_events) (auto dest: build_request_url)

lemma proxyFetch_request_events':
  "proxyFetch env u m pd hs proxy x = (r, tr, x') \<Longrightarrow> list_all (request_event u) tr"
  using proxyFetch_request_events [of u env m pd hs proxy x] by (simp add: trace_of_def)

lemma requests_append [simp]: "requests (xs @ ys) = requests xs @ requests ys"
  by (induction xs rule: requests.induct) simp_all

lemma logged_append [simp]: "logged (xs @ ys) = logged xs @ logged ys"
  by (induction xs rule: logged.induct) simp_all

lemma request_events_requests:
  "list_all (request_event u) tr \<Longrightarrow> req \<in> set (requests tr) \<Longrightarrow> url req = u"
  by (induction tr rule: requests.induct) auto

lemma request_events_logged:
  "list_all (request_event u) tr \<Longrightarrow> (l, em, msg) \<in> set (logged tr) \<Longrightarrow>
   l = Warn \<and> em = None \<and> prefix ''Attempt '' msg"
  by (induction tr rule: logged.induct) auto

lemma checkin_report_cases:
  "field ''tokensToAward'' c = Some (JNum r) \<and> r \<noteq> 0 \<Longrightarrow>
     checkin_report env em (Inr c)
       = Inr [Eff (Logged Info (Some em) (successMsg (Number_toString env r)))]"
  "field ''tokensToAward'' c = Some (JNum 0) \<or> field ''tokensToAward'' c = None \<Longrightarrow>
     checkin_report env em (Inr c)
       = Inr [Eff (Logged Warn (Some em) ''Check-in not available yet.'')]"
  "status e = Some 400 \<Longrightarrow>
     checkin_report env em (Inl (Some e)) = Inr [Eff (Logged Info (Some em) alreadyCheckedMsg)]"
  "status e \<noteq> Some 400 \<Longrightarrow>
     checkin_report env em (Inl (Some e))
       = Inr [Eff (Logged Error (Some em) (''Check-in failed: '' @ message e))]"
proof -
  show "checkin_report env em (Inr c)
      = Inr [Eff (Logged Info (Some em) (successMsg (Number_toString env r)))]"
    if a: "field ''tokensToAward'' c = Some (JNum r) \<and> r \<noteq> 0"
  proof -
    from a have "truthy c" by (cases c) simp_all
    with a show ?thesis
      by (simp add: checkin_report_def truthy_opt_def ToString_opt_def)
  qed
  show "checkin_report env em (Inr c)
      = Inr [Eff (Logged Warn (Some em) ''Check-in not available yet.'')]"
    if "field ''tokensToAward'' c = Some (JNum 0) \<or> field ''tokensToAward'' c = None"
    using that by (auto simp: checkin_report_def truthy_opt_def)
  show "checkin_report env em (Inl (Some e)) = Inr [Eff (Logged Info (Some em) alreadyCheckedMsg)]"
    if "status e = Some 400"
    using that by (simp add: checkin_report_def)
  show "checkin_report env em (Inl (Some e))
      = Inr [Eff (Logged Error (Some em) (''Check-in failed: '' @ message e))]"
    if "status e \<noteq> Some 400"
    using that by (simp add: checkin_report_def)
qed

text \<open>The report is what the workflow appends to its trace after the reward-claim request.\<close>

lemma loginAndCheckIn_claim_step:
  assumes "proxyFetch env signin_url ''POST''
        (Some (JObj [(''email'', JStr em), (''password'', JStr pw)])) headersTemplate proxy x
      = (Inr signIn, tr1, x1)"
    and "truthy signIn \<and> truthy_opt (field ''accessToken'' signIn)"
    and "hs = headersTemplate
        @ [(''Authorization'',
            ''Bearer '' @ ToString_opt (Number_toString env) (field ''accessToken'' signIn))]"
    and "proxyFetch env users_url ''GET'' None hs proxy x1 = (Inr user, tr3, x2)"
    and "truthy user \<and> truthy_opt (field ''id'' user)"
    and "proxyFetch env (earn_url (ToString_opt (Number_toString env) (field ''id'' user)))
        ''GET'' None hs proxy x2 = (checkin, tr5, x3)"
    and "checkin_report env em checkin = Inr tr6"
  shows "loginAndCheckIn env em pw proxy x =
     (None,
      (Eff (Logged Info (Some em) ''Attempting login'') # tr1
        @ Eff (Logged Info (Some em) ''Login succeeded! Fetching user details...'') # tr3
        @ [Eff (Logged Info (Some em)
             (''User id: '' @ ToString_opt (Number_toString env) (field ''id'' user)
                @ '' | Current points: ''
                @ ToString_opt (Number_toString env) (field ''dipTokenBalance'' user))),
           Eff (Logged Info (Some em) ''Attempting daily check-in...'')]
        @ tr5) @ tr6,
      x3)"
  using assms by (simp add: loginAndCheckIn_def)

lemma request_events_not_for_account:
  "list_all (request_event u) tr \<Longrightarrow> (l, Some em, msg) \<notin> set (logged tr)"
  using request_events_logged [of u tr l "Some em" msg] by auto

lemma workflow_claim_outcomes:
  assumes "proxyFetch env signin_url ''POST''
        (Some (JObj [(''email'', JStr em), (''password'', JStr pw)])) headersTemplate proxy x
      = (Inr signIn, tr1, x1)"
    and "truthy signIn \<and> truthy_opt (field ''accessToken'' signIn)"
    and "hs = headersTemplate
        @ [(''Authorization'',
            ''Bearer '' @ ToString_opt (Number_toString env) (field ''accessToken'' signIn))]"
    and "proxyFetch env users_url ''GET'' None hs proxy x1 = (Inr user, tr3, x2)"
    and "truthy user \<and> truthy_opt (field ''id'' user)"
    and "proxyFetch env (earn_url (ToString_opt (Number_toString env) (field ''id'' user)))
        ''GET'' None hs proxy x2 = (checkin, tr5, x3)"
    and "pre = Eff (Logged Info (Some em) ''Attempting login'') # tr1
        @ Eff (Logged Info (Some em) ''Login succeeded! Fetching user details...'') # tr3
        @ [Eff (Logged Info (Some em)
             (''User id: '' @ ToString_opt (Number_toString env) (field ''id'' user)
                @ '' | Current points: ''
                @ ToString_opt (Number_toString env) (field ''dipTokenBalance'' user))),
           Eff (Logged Info (Some em) ''Attempting daily check-in...'')]
        @ tr5"
  shows "(\<forall>c r. checkin = Inr c \<and> field ''tokensToAward'' c = Some (JNum r) \<and> r \<noteq> 0 \<longrightarrow>
        loginAndCheckIn env em pw proxy x =
          (None, pre @ [Eff (Logged Info (Some em) (successMsg (Number_toString env r)))], x3))
     \<and> (\<forall>c. checkin = Inr c
            \<and> (field ''tokensToAward'' c = Some (JNum 0) \<or> field ''tokensToAward'' c = None) \<longrightarrow>
        loginAndCheckIn env em pw proxy x =
          (None, pre @ [Eff (Logged Warn (Some em) ''Check-in not available yet.'')], x3)
        \<and> (\<forall>l a award. (l, a, successMsg award)
              \<notin> set (logged (trace_of (loginAndCheckIn env em pw proxy x)))))
     \<and> (\<forall>e. checkin = Inl (Some e) \<and> status e = Some 400 \<longrightarrow>
        loginAndCheckIn env em pw proxy x =
          (None, pre @ [Eff (Logged Info (Some em) alreadyCheckedMsg)], x3)
        \<and> (\<forall>a msg. (Error, a, msg)
              \<notin> set (logged (trace_of (loginAndCheckIn env em pw proxy x)))))
     \<and> (\<forall>e. checkin = Inl (Some e) \<and> status e \<noteq> Some 400 \<longrightarrow>
        loginAndCheckIn env em pw proxy x =
          (None,
           pre @ [Eff (Logged Error (Some em) (''Check-in failed: '' @ message e))], x3))"
proof -
  note step = loginAndCheckIn_claim_step [OF assms(1-6), folded assms(7)]
  have e1: "list_all (request_event signin_url) tr1"
    using assms(1) by (rule proxyFetch_request_events')
  have e3: "list_all (request_event users_url) tr3"
    using assms(4) by (rule proxyFetch_request_events')
  have e5: "list_all (request_event
      (earn_url (ToString_opt (Number_toString env) (field ''id'' user)))) tr5"
    using assms(6) by (rule proxyFetch_request_events')
  have pre_logged: "logged pre =
      (Info, Some em, ''Attempting login'') # logged tr1
        @ (Info, Some em, ''Login succeeded! Fetching user details...'') # logged tr3
        @ [(Info, Some em,
             ''User id: '' @ ToString_opt (Number_toString env) (field ''id'' user)
                @ '' | Current points: ''
                @ ToString_opt (Number_toString env) (field ''dipTokenBalance'' user)),
           (Info, Some em, ''Attempting daily check-in...'')]
        @ logged tr5"
    by (simp add: assms(7))
  have no_success: "(l, a, successMsg award) \<notin> set (logged pre)" for l a award
    using request_events_logged [OF e1, of l a "successMsg award"]
      request_events_logged [OF e3, of l a "successMsg award"]
      request_events_logged [OF e5, of l a "successMsg award"]
    by (auto simp: pre_logged successMsg_def)
  have no_error: "(Error, a, msg) \<notin> set (logged pre)" for a msg
    using request_events_logged [OF e1, of Error a msg]
      request_events_logged [OF e3, of Error a msg]
      request_events_logged [OF e5, of Error a msg]
    by (auto simp: pre_logged)
  show ?thesis
  proof (intro conjI allI impI)
    fix c r
    assume a: "checkin = Inr c \<and> field ''tokensToAward'' c = Some (JNum r) \<and> r \<noteq> 0"
    then have "checkin_report env em checkin
        = Inr [Eff (Logged Info (Some em) (successMsg (Number_toString env r)))]"
      using checkin_report_cases(1) [of c r env em] by simp
    then show "loginAndCheckIn env em pw proxy x =
        (None, pre @ [Eff (Logged Info (Some em) (successMsg (Number_toString env r)))], x3)"
      by (rule step)
  next
    fix c
    assume a: "checkin = Inr c
        \<and> (field ''tokensToAward'' c = Some (JNum 0) \<or> field ''tokensToAward'' c = None)"
    then have "checkin_report env em checkin
        = Inr [Eff (Logged Warn (Some em) ''Check-in not available yet.'')]"
      using checkin_report_cases(2) [of c env em] by simp
    then show run: "loginAndCheckIn env em pw proxy x =
        (None, pre @ [Eff (Logged Warn (Some em) ''Check-in not available yet.'')], x3)"
      by (rule step)
    fix l a award
    show "(l, a, successMsg award)
        \<notin> set (logged (trace_of (loginAndCheckIn env em pw proxy x)))"
      using no_success [of l a award] by (simp add: run trace_of_def successMsg_def)
  next
    fix e
    assume a: "checkin = Inl (Some e) \<and> status e = Some 400"
    then have "checkin_report env em checkin = Inr [Eff (Logged Info (Some em) alreadyCheckedMsg)]"
      using checkin_report_cases(3) [of e env em] by simp
    then show run: "loginAndCheckIn env em pw proxy x =
        (None, pre @ [Eff (Logged Info (Some em) alreadyCheckedMsg)], x3)"
      by (rule step)
    fix a msg
    show "(Error, a, msg) \<notin> set (logged (trace_of (loginAndCheckIn env em pw proxy x)))"
      using no_error [of a msg] by (simp add: run trace_of_def)
  next
    fix e
    assume a: "checkin = Inl (Some e) \<and> status e \<noteq> Some 400"
    then have "checkin_report env em checkin
        = Inr [Eff (Logged Error (Some em) (''Check-in failed: '' @ message e))]"
      using checkin_report_cases(4) [of e env em] by simp
    then show "loginAndCheckIn env em pw proxy x =
        (None, pre @ [Eff (Logged Error (Some em) (''Check-in failed: '' @ message e))], x3)"
      by (rule step)
  qed
qed

text \<open>
  C4. The workflow, once sign-in has yielded a token and the profile an identifier, for
  every outcome of the reward-claim request. Its trace is what came before (\<open>pre\<close>: the
  progress entries and the events of the three requests) and one last entry, whose
  text is spelled out below with its colour codes: for a payload whose \<open>tokensToAward\<close>
  is a number other than 0, the info entry ``Check-in successful! Awarded points: ''
  followed by the amount; for a payload whose \<open>tokensToAward\<close> is 0 or missing, the warning
  ``Check-in not available yet.'', and then no entry of the whole trace is a success
  message; for a failure with status 400, the info entry ``Already checked in today'',
  and then the trace has no error entry; for any other failure, the error entry
  ``Check-in failed: '' with the message of the error.
\<close>

theorem reward_claim_outcome_logging:
  assumes "proxyFetch env signin_url ''POST''
        (Some (JObj [(''email'', JStr em), (''password'', JStr pw)])) headersTemplate proxy x
      = (Inr signIn, tr1, x1)"
    and "truthy signIn \<and> truthy_opt (field ''accessToken'' signIn)"
    and "hs = headersTemplate
        @ [(''Authorization'',
            ''Bearer '' @ ToString_opt (Number_toString env) (field ''accessToken'' signIn))]"
    and "proxyFetch env users_url ''GET'' None hs proxy x1 = (Inr user, tr3, x2)"
    and "truthy user \<and> truthy_opt (field ''id'' user)"
    and "proxyFetch env (earn_url (ToString_opt (Number_toString env) (field ''id'' user)))
        ''GET'' None hs proxy x2 = (checkin, tr5, x3)"
    and "pre = Eff (Logged Info (Some em) ''Attempting login'') # tr1
        @ Eff (Logged Info (Some em) ''Login succeeded! Fetching user details...'') # tr3
        @ [Eff (Logged Info (Some em)
             (''User id: '' @ ToString_opt (Number_toString env) (field ''id'' user)
                @ '' | Current points: ''
                @ ToString_opt (Number_toString env) (field ''dipTokenBalance'' user))),
           Eff (Logged Info (Some em) ''Attempting daily check-in...'')]
        @ tr5"
  shows "(\<forall>c r. checkin = Inr c \<and> field ''tokensToAward'' c = Some (JNum r) \<and> r \<noteq> 0 \<longrightarrow>
        loginAndCheckIn env em pw proxy x =
          (None, pre @ [Eff (Logged Info (Some em)
                   (CHR 0x1B # ''[38;5;46mCheck-in successful! Awarded points: ''
                      @ Number_toString env r @ CHR 0x1B # ''[0m''))], x3))
     \<and> (\<forall>c. checkin = Inr c
            \<and> (field ''tokensToAward'' c = Some (JNum 0) \<or> field ''tokensToAward'' c = None) \<longrightarrow>
        loginAndCheckIn env em pw proxy x =
          (None, pre @ [Eff (Logged Warn (Some em) ''Check-in not available yet.'')], x3)
        \<and> (\<forall>l a award.
              (l, a, CHR 0x1B # ''[38;5;46mCheck-in successful! Awarded points: ''
                       @ award @ CHR 0x1B # ''[0m'')
              \<notin> set (logged (trace_of (loginAndCheckIn env em pw proxy x)))))
     \<and> (\<forall>e. checkin = Inl (Some e) \<and> status e = Some 400 \<longrightarrow>
        loginAndCheckIn env em pw proxy x =
          (None, pre @ [Eff (Logged Info (Some em)
                   (CHR 0x1B # ''[38;5;220mAlready checked in today'' @ CHR 0x1B # ''[0m''))], x3)
        \<and> (\<forall>a msg. (Error, a, msg)
              \<notin> set (logged (trace_of (loginAndCheckIn env em pw proxy x)))))
     \<and> (\<forall>e. checkin = Inl (Some e) \<and> status e \<noteq> Some 400 \<longrightarrow>
        loginAndCheckIn env em pw proxy x =
          (None,
           pre @ [Eff (Logged Error (Some em) (''Check-in failed: '' @ message e))], x3))"
  using workflow_claim_outcomes [OF assms]
  unfolding successMsg_def alreadyCheckedMsg_def .


lemma example_env_signin:
  "proxyFetch example_env signin_url ''POST''
        (Some (JObj [(''email'', JStr ''a@x.com''), (''password'', JStr ''pw1'')]))
        headersTemplate None 0
      = (Inr (JObj [(''accessToken'', JStr ''tok'')]),
         [Attempt 1,
          Eff (Fetched \<lparr>url = signin_url, http_method = ''POST'', headers = headersTemplate,
                 body = Some (JObj [(''email'', JStr ''a@x.com''), (''password'', JStr ''pw1'')]),
                 agent = None\<rparr>)],
         1)"
  by code_simp

lemma example_env_profile:
  "proxyFetch example_env users_url ''GET'' None
        (headersTemplate @ [(''Authorization'', ''Bearer tok'')]) None 1
      = (Inr (JObj [(''id'', JNum 7), (''dipTokenBalance'', JNum 12)]),
         [Attempt 1,
          Eff (Fetched \<lparr>url = users_url, http_method = ''GET'',
                 headers = headersTemplate @ [(''Authorization'', ''Bearer tok'')],
                 body = None, agent = None\<rparr>)],
         2)"
  by code_simp

lemma example_env_claim:
  "proxyFetch example_env (earn_url ''7'') ''GET'' None
        (headersTemplate @ [(''Authorization'', ''Bearer tok'')]) None 2
      = (Inl (Some \<lparr>message = ''Request failed: HTTP error! Status: 400'', status = Some 400,
             noRetry = True\<rparr>),
         [Attempt 1,
          Eff (Fetched \<lparr>url = earn_url ''7'', http_method = ''GET'',
                 headers = headersTemplate @ [(''Authorization'', ''Bearer tok'')],
                 body = None, agent = None\<rparr>)],
         3)"
  by code_simp

lemma rewarding_env_signin:
  "proxyFetch rewarding_env signin_url ''POST''
        (Some (JObj [(''email'', JStr ''a@x.com''), (''password'', JStr ''pw1'')]))
        headersTemplate None 0
      = (Inr (JObj [(''accessToken'', JStr ''tok'')]),
         [Attempt 1,
          Eff (Fetched \<lparr>url = signin_url, http_method = ''POST'', headers = headersTemplate,
                 body = Some (JObj [(''email'', JStr ''a@x.com''), (''password'', JStr ''pw1'')]),
                 agent = None\<rparr>)],
         1)"
  by code_simp

lemma rewarding_env_profile:
  "proxyFetch rewarding_env users_url ''GET'' None
        (headersTemplate @ [(''Authorization'', ''Bearer tok'')]) None 1
      = (Inr (JObj [(''id'', JNum 7), (''dipTokenBalance'', JNum 12)]),
         [Attempt 1,
          Eff (Fetched \<lparr>url = users_url, http_method = ''GET'',
                 headers = headersTemplate @ [(''Authorization'', ''Bearer tok'')],
                 body = None, agent = None\<rparr>)],
         2)"
  by code_simp

lemma rewarding_env_claim:
  "proxyFetch rewarding_env (earn_url ''7'') ''GET'' None
        (headersTemplate @ [(''Authorization'', ''Bearer tok'')]) None 2
      = (Inr (JObj [(''tokensToAward'', JNum 5)]),
         [Attempt 1,
          Eff (Fetched \<lparr>url = earn_url ''7'', http_method = ''GET'',
                 headers = headersTemplate @ [(''Authorization'', ''Bearer tok'')],
                 body = None, agent = None\<rparr>)],
         3)"
  by code_simp

lemma example_strings:
  "ToString_opt (Number_toString example_env) (field ''accessToken'' (JObj [(''accessToken'', JStr ''tok'')]))
     = ''tok''"
  "ToString_opt (Number_toString example_env)
     (field ''id'' (JObj [(''id'', JNum 7), (''dipTokenBalance'', JNum 12)])) = ''7''"
  "ToString_opt (Number_toString example_env)
     (field ''dipTokenBalance'' (JObj [(''id'', JNum 7), (''dipTokenBalance'', JNum 12)])) = ''12''"
  "Number_toString example_env 5 = ''5''"
  by code_simp+

lemma example_numbers:
  "ToString_opt (Number_toString example_env) (Some (JNum 7)) = ''7''"
  "ToString_opt (Number_toString example_env) (Some (JNum 12)) = ''12''"
  by code_simp+

lemma rewarding_env_strings: "Number_toString rewarding_env = Number_toString example_env"
  by (simp add: rewarding_env_def)

theorem reward_claim_outcome_logging_witness:
  "logged (trace_of (loginAndCheckIn example_env ''a@x.com'' ''pw1'' None 0)) =
     [(Info, Some ''a@x.com'', ''Attempting login''),
      (Info, Some ''a@x.com'', ''Login succeeded! Fetching user details...''),
      (Info, Some ''a@x.com'', ''User id: 7 | Current points: 12''),
      (Info, Some ''a@x.com'', ''Attempting daily check-in...''),
      (Info, Some ''a@x.com'',
       CHR 0x1B # ''[38;5;220mAlready checked in today'' @ CHR 0x1B # ''[0m'')]
   \<and> logged (trace_of (loginAndCheckIn rewarding_env ''a@x.com'' ''pw1'' None 0)) =
     [(Info, Some ''a@x.com'', ''Attempting login''),
      (Info, Some ''a@x.com'', ''Login succeeded! Fetching user details...''),
      (Info, Some ''a@x.com'', ''User id: 7 | Current points: 12''),
      (Info, Some ''a@x.com'', ''Attempting daily check-in...''),
      (Info, Some ''a@x.com'',
       CHR 0x1B # ''[38;5;46mCheck-in successful! Awarded points: 5'' @ CHR 0x1B # ''[0m'')]"
proof -
  let ?signIn = "JObj [(''accessToken'', JStr ''tok'')]"
  let ?user = "JObj [(''id'', JNum 7), (''dipTokenBalance'', JNum 12)]"
  have token: "truthy ?signIn \<and> truthy_opt (field ''accessToken'' ?signIn)"
    by (simp add: truthy_opt_def)
  have ident: "truthy ?user \<and> truthy_opt (field ''id'' ?user)"
    by (simp add: truthy_opt_def)
  have hs: "headersTemplate @ [(''Authorization'', ''Bearer tok'')]
      = headersTemplate
        @ [(''Authorization'',
            ''Bearer '' @ ToString_opt (Number_toString example_env) (field ''accessToken'' ?signIn))]"
    by (simp add: ToString_opt_def)
  have hs': "headersTemplate @ [(''Authorization'', ''Bearer tok'')]
      = headersTemplate
        @ [(''Authorization'',
            ''Bearer '' @ ToString_opt (Number_toString rewarding_env) (field ''accessToken'' ?signIn))]"
    by (simp add: ToString_opt_def)
  have claim: "proxyFetch example_env
        (earn_url (ToString_opt (Number_toString example_env) (field ''id'' ?user))) ''GET'' None
        (headersTemplate @ [(''Authorization'', ''Bearer tok'')]) None 2
      = (Inl (Some \<lparr>message = ''Request failed: HTTP error! Status: 400'', status = Some 400,
             noRetry = True\<rparr>),
         [Attempt 1,
          Eff (Fetched \<lparr>url = earn_url ''7'', http_method = ''GET'',
                 headers = headersTemplate @ [(''Authorization'', ''Bearer tok'')],
                 body = None, agent = None\<rparr>)],
         3)"
    using example_env_claim by (simp only: example_strings)
  have claim': "proxyFetch rewarding_env
        (earn_url (ToString_opt (Number_toString rewarding_env) (field ''id'' ?user))) ''GET'' None
        (headersTemplate @ [(''Authorization'', ''Bearer tok'')]) None 2
      = (Inr (JObj [(''tokensToAward'', JNum 5)]),
         [Attempt 1,
          Eff (Fetched \<lparr>url = earn_url ''7'', http_method = ''GET'',
                 headers = headersTemplate @ [(''Authorization'', ''Bearer tok'')],
                 body = None, agent = None\<rparr>)],
         3)"
    using rewarding_env_claim by (simp only: example_strings rewarding_env_strings)
  note T = reward_claim_outcome_logging
    [OF example_env_signin token hs example_env_profile ident claim refl]
  have c400: "Inl (Some \<lparr>message = ''Request failed: HTTP error! Status: 400'', status = Some 400,
             noRetry = True\<rparr>)
        = (Inl (Some \<lparr>message = ''Request failed: HTTP error! Status: 400'', status = Some 400,
             noRetry = True\<rparr>) :: err option + json)
      \<and> status \<lparr>message = ''Request failed: HTTP error! Status: 400'', status = Some 400,
             noRetry = True\<rparr> = Some 400"
    by simp
  note r1 = T [THEN conjunct2, THEN conjunct2, THEN conjunct1, rule_format, OF c400,
      THEN conjunct1]
  note T' = reward_claim_outcome_logging
    [OF rewarding_env_signin token hs' rewarding_env_profile ident claim' refl]
  have c5: "Inr (JObj [(''tokensToAward'', JNum 5)])
        = (Inr (JObj [(''tokensToAward'', JNum 5)]) :: err option + json)
      \<and> field ''tokensToAward'' (JObj [(''tokensToAward'', JNum 5)]) = Some (JNum 5)
      \<and> (5::rat) \<noteq> 0"
    by simp
  note r2 = T' [THEN conjunct1, rule_format, OF c5]
  have l1: "logged (trace_of (loginAndCheckIn example_env ''a@x.com'' ''pw1'' None 0)) =
     [(Info, Some ''a@x.com'', ''Attempting login''),
      (Info, Some ''a@x.com'', ''Login succeeded! Fetching user details...''),
      (Info, Some ''a@x.com'', ''User id: 7 | Current points: 12''),
      (Info, Some ''a@x.com'', ''Attempting daily check-in...''),
      (Info, Some ''a@x.com'',
       CHR 0x1B # ''[38;5;220mAlready checked in today'' @ CHR 0x1B # ''[0m'')]"
    by (simp add: r1 trace_of_def example_numbers)
  have l2: "logged (trace_of (loginAndCheckIn rewarding_env ''a@x.com'' ''pw1'' None 0)) =
     [(Info, Some ''a@x.com'', ''Attempting login''),
      (Info, Some ''a@x.com'', ''Login succeeded! Fetching user details...''),
      (Info, Some ''a@x.com'', ''User id: 7 | Current points: 12''),
      (Info, Some ''a@x.com'', ''Attempting daily check-in...''),
      (Info, Some ''a@x.com'',
       CHR 0x1B # ''[38;5;46mCheck-in successful! Awarded points: 5'' @ CHR 0x1B # ''[0m'')]"
    by (simp add: r2 trace_of_def example_numbers example_strings(4) rewarding_env_strings)
  from l1 l2 show ?thesis by (rule conjI)
qed

text \<open>
  C9. When sign-in yields a payload with an access token and the profile request yields
  a payload without identifier, the workflow returns after the profile request: its
  trace is the entry ``Attempting login'', the events of the sign-in request, the entry
  ``Login succeeded! Fetching user details...'' and the events of the profile request.
  So every request goes to the sign-in or the profile URL, none to a reward-claim URL;
  the workflow logs nothing at error level; and beyond the two info entries the only
  log entries are the warnings of the retry loop about failed attempts.
\<close>

theorem missing_identifier_stops_silently:
  assumes "proxyFetch env signin_url ''POST''
        (Some (JObj [(''email'', JStr em), (''password'', JStr pw)])) headersTemplate proxy x
      = (Inr signIn, tr1, x1)"
    and "truthy signIn \<and> truthy_opt (field ''accessToken'' signIn)"
    and "proxyFetch env users_url ''GET'' None
        (headersTemplate
           @ [(''Authorization'',
               ''Bearer '' @ ToString_opt (Number_toString env) (field ''accessToken'' signIn))])
        proxy x1
      = (Inr user, tr3, x2)"
    and "\<not> truthy user \<or> \<not> truthy_opt (field ''id'' user)"
  shows "loginAndCheckIn env em pw proxy x =
       (None,
        Eff (Logged Info (Some em) ''Attempting login'') # tr1
          @ Eff (Logged Info (Some em) ''Login succeeded! Fetching user details...'') # tr3,
        x2)
     \<and> (\<forall>req \<in> set (requests (trace_of (loginAndCheckIn env em pw proxy x))).
          (url req = signin_url \<or> url req = users_url)
          \<and> \<not> includes_str (url req) ''/users/earn/'')
     \<and> logged (trace_of (loginAndCheckIn env em pw proxy x)) =
          (Info, Some em, ''Attempting login'') # logged tr1
            @ (Info, Some em, ''Login succeeded! Fetching user details...'') # logged tr3
     \<and> (\<forall>(l, a, msg) \<in> set (logged tr1 @ logged tr3).
          l = Warn \<and> a = None \<and> prefix ''Attempt '' msg)"
proof -
  have run: "loginAndCheckIn env em pw proxy x =
       (None,
        Eff (Logged Info (Some em) ''Attempting login'') # tr1
          @ Eff (Logged Info (Some em) ''Login succeeded! Fetching user details...'') # tr3,
        x2)"
    using assms by (auto simp: loginAndCheckIn_def Let_def truthy_opt_def)
  have e1: "list_all (request_event signin_url) tr1"
    using assms(1) by (rule proxyFetch_request_events')
  have e3: "list_all (request_event users_url) tr3"
    using assms(3) by (rule proxyFetch_request_events')
  have reqs: "\<forall>req \<in> set (requests (trace_of (loginAndCheckIn env em pw proxy x))).
          (url req = signin_url \<or> url req = users_url)
          \<and> \<not> includes_str (url req) ''/users/earn/''"
  proof
    fix req
    assume "req \<in> set (requests (trace_of (loginAndCheckIn env em pw proxy x)))"
    then have "req \<in> set (requests tr1) \<or> req \<in> set (requests tr3)"
      by (simp add: run trace_of_def)
    then have "url req = signin_url \<or> url req = users_url"
      using request_events_requests [OF e1] request_events_requests [OF e3] by auto
    then show "(url req = signin_url \<or> url req = users_url)
        \<and> \<not> includes_str (url req) ''/users/earn/''"
      using signin_url_not_earn users_url_not_earn by auto
  qed
  have logs: "logged (trace_of (loginAndCheckIn env em pw proxy x)) =
          (Info, Some em, ''Attempting login'') # logged tr1
            @ (Info, Some em, ''Login succeeded! Fetching user details...'') # logged tr3"
    by (simp add: run trace_of_def)
  have warns: "\<forall>(l, a, msg) \<in> set (logged tr1 @ logged tr3).
          l = Warn \<and> a = None \<and> prefix ''Attempt '' msg"
    using request_events_logged [OF e1] request_events_logged [OF e3] by auto
  from run reqs logs warns show ?thesis by (intro conjI)
qed

lemma anonymous_signin:
  "proxyFetch anonymous_env signin_url ''POST''
        (Some (JObj [(''email'', JStr ''a@x.com''), (''password'', JStr ''pw1'')]))
        headersTemplate None 0
      = (Inr (JObj [(''accessToken'', JStr ''tok'')]),
         [Attempt 1,
          Eff (Fetched \<lparr>url = signin_url, http_method = ''POST'', headers = headersTemplate,
                 body = Some (JObj [(''email'', JStr ''a@x.com''), (''password'', JStr ''pw1'')]),
                 agent = None\<rparr>)],
         1)"
  by code_simp

lemma anonymous_profile:
  "proxyFetch anonymous_env users_url ''GET'' None
        (headersTemplate
           @ [(''Authorization'',
               ''Bearer '' @ ToString_opt (Number_toString anonymous_env)
                  (field ''accessToken'' (JObj [(''accessToken'', JStr ''tok'')])))])
        None 1
      = (Inr (JObj [(''dipTokenBalance'', JNum 12)]),
         [Attempt 1,
          Eff (Fetched \<lparr>url = users_url, http_method = ''GET'',
                 headers = headersTemplate @ [(''Authorization'', ''Bearer tok'')],
                 body = None, agent = None\<rparr>)],
         2)"
  by code_simp

theorem missing_identifier_stops_silently_witness:
  "loginAndCheckIn anonymous_env ''a@x.com'' ''pw1'' None 0 =
     (None,
      [Eff (Logged Info (Some ''a@x.com'') ''Attempting login''),
       Attempt 1,
       Eff (Fetched \<lparr>url = signin_url, http_method = ''POST'', headers = headersTemplate,
              body = Some (JObj [(''email'', JStr ''a@x.com''), (''password'', JStr ''pw1'')]),
              agent = None\<rparr>),
       Eff (Logged Info (Some ''a@x.com'') ''Login succeeded! Fetching user details...''),
       Attempt 1,
       Eff (Fetched \<lparr>url = users_url, http_method = ''GET'',
              headers = headersTemplate @ [(''Authorization'', ''Bearer tok'')],
              body = None, agent = None\<rparr>)],
      2)
   \<and> map url (requests (trace_of (loginAndCheckIn anonymous_env ''a@x.com'' ''pw1'' None 0)))
        = [signin_url, users_url]
   \<and> logged (trace_of (loginAndCheckIn anonymous_env ''a@x.com'' ''pw1'' None 0)) =
        [(Info, Some ''a@x.com'', ''Attempting login''),
         (Info, Some ''a@x.com'', ''Login succeeded! Fetching user details...'')]"
proof -
  have token: "truthy (JObj [(''accessToken'', JStr ''tok'')])
      \<and> truthy_opt (field ''accessToken'' (JObj [(''accessToken'', JStr ''tok'')]))"
    by (simp add: truthy_opt_def)
  have no_id: "\<not> truthy (JObj [(''dipTokenBalance'', JNum 12)])
      \<or> \<not> truthy_opt (field ''id'' (JObj [(''dipTokenBalance'', JNum 12)]))"
    by (simp add: truthy_opt_def)
  note T = missing_identifier_stops_silently [OF anonymous_signin token anonymous_profile no_id]
  from T [THEN conjunct1] T [THEN conjunct2, THEN conjunct2, THEN conjunct1]
  show ?thesis by (simp add: trace_of_def)
qed


text \<open>A whole run of the workflow on the example service, through a proxy: the claim
  request is answered with 400, which ends its retry loop at the first attempt.\<close>

lemma example_workflow_run:
  "map (\<lambda>e. case e of Eff (Fetched req) \<Rightarrow> Eff (Fetched (req\<lparr>headers := []\<rparr>)) | _ \<Rightarrow> e)
     (trace_of (loginAndCheckIn example_env ''a@x.com'' ''pw1'' (Some ''p0'') 0)) =
     [Eff (Logged Info (Some ''a@x.com'') ''Attempting login''),
      Attempt 1,
      Eff (Fetched \<lparr>url = signin_url, http_method = ''POST'', headers = [],
             body = Some (JObj [(''email'', JStr ''a@x.com''), (''password'', JStr ''pw1'')]),
             agent = Some ''http://p0''\<rparr>),
      Eff (Logged Info (Some ''a@x.com'') ''Login succeeded! Fetching user details...''),
      Attempt 1,
      Eff (Fetched \<lparr>url = users_url, http_method = ''GET'', headers = [], body = None,
             agent = Some ''http://p0''\<rparr>),
      Eff (Logged Info (Some ''a@x.com'') ''User id: 7 | Current points: 12''),
      Eff (Logged Info (Some ''a@x.com'') ''Attempting daily check-in...''),
      Attempt 1,
      Eff (Fetched \<lparr>url = earn_url ''7'', http_method = ''GET'', headers = [], body = None,
             agent = Some ''http://p0''\<rparr>),
      Eff (Logged Info (Some ''a@x.com'')
        (CHR 0x1B # ''[38;5;220mAlready checked in today'' @ CHR 0x1B # ''[0m''))]"
  by code_simp

section \<open>Proofs: loading\<close>

lemma load_both_succeeds:
  "\<exists>accounts proxies evs x'. load_both env x = (Inr (accounts, proxies), evs, x')"
  by (auto simp: load_both_def split: prod.splits)

lemma loadData_once:
  "loadData env x =
     (thrown (fst (load_both env x)), Attempt 1 # map Eff (fst (snd (load_both env x))),
      state_of (load_both env x))"
proof -
  from load_both_succeeds [of env x] have "\<not> failure (fst (load_both env x))"
    by (auto simp: failure_def)
  then show ?thesis
    unfolding loadData_def withRetry_def
    by (subst withRetry_loop_stop) simp_all
qed

lemma loadData_result:
  "\<exists>accounts proxies. fst (loadData env x) = Inr (accounts, proxies)"
  using load_both_succeeds [of env x] by (auto simp: loadData_once thrown_def)

lemma load_both_effects:
  "ev \<in> set (fst (snd (load_both env x))) \<Longrightarrow>
   (\<exists>name. ev = FileRead name) \<or> (\<exists>msg. ev = Logged Error None msg)"
  by (auto simp: load_both_def loadAccounts_def loadProxies_def split: prod.splits sum.splits)

lemma loadData_direct: "list_all direct_event (trace_of (loadData env x))"
proof -
  have "direct_event (Eff ev)" if "ev \<in> set (fst (snd (load_both env x)))" for ev
    using load_both_effects [OF that] by auto
  then show ?thesis
    by (auto simp: loadData_once trace_of_def list_all_iff)
qed

lemma loadData_reads:
  "Eff (FileRead ''data.txt'') \<in> set (trace_of (loadData env x))
   \<and> Eff (FileRead ''proxy.txt'') \<in> set (trace_of (loadData env x))"
  by (auto simp: loadData_once trace_of_def load_both_def loadAccounts_def loadProxies_def
      split: prod.splits sum.splits)

lemma loadData_unreadable:
  "loadData unreadable_env 0 =
     (Inr ([], []),
      [Attempt 1,
       Eff (FileRead ''data.txt''),
       Eff (Logged Error None ''Error loading accounts: ENOENT: no such file or directory''),
       Eff (FileRead ''proxy.txt''),
       Eff (Logged Error None ''Error loading proxies: ENOENT: no such file or directory'')],
      0)"
  by code_simp

text \<open>
  C5. The load of the two lists is wrapped in \<open>withRetry\<close> with 5 attempts and a base
  delay of 3000 ms, network calls in \<open>withSelectiveRetry\<close> with 3 attempts and 2000 ms.
  But the wrapped operation cannot fail, since \<open>loadAccounts\<close> and \<open>loadProxies\<close> catch
  the error of the read, log it and return an empty list: whatever the files do, the
  operation is called once and there is no wait. With files that cannot be read, the one
  attempt logs both errors and yields two empty lists, and \<open>main\<close> logs ``No accounts
  found in data.txt'' and returns: the failure surfaces without a retry.
\<close>

theorem load_failure_is_not_retried:
  "loadData env = withRetry (load_both env) 5 3000
   \<and> proxyFetch env u m pd hs proxy = withSelectiveRetry (executeFetch env u m pd hs proxy) 3 2000
   \<and> (\<exists>accounts proxies. fst (loadData env x) = Inr (accounts, proxies))
   \<and> attempts (trace_of (loadData env x)) = [1]
   \<and> waits (trace_of (loadData env x)) = []
   \<and> loadData unreadable_env 0 =
       (Inr ([], []),
        [Attempt 1,
         Eff (FileRead ''data.txt''),
         Eff (Logged Error None ''Error loading accounts: ENOENT: no such file or directory''),
         Eff (FileRead ''proxy.txt''),
         Eff (Logged Error None ''Error loading proxies: ENOENT: no such file or directory'')],
        0)
   \<and> main_try unreadable_env c 0 =
       (Returned,
        [Attempt 1,
         Eff (FileRead ''data.txt''),
         Eff (Logged Error None ''Error loading accounts: ENOENT: no such file or directory''),
         Eff (FileRead ''proxy.txt''),
         Eff (Logged Error None ''Error loading proxies: ENOENT: no such file or directory''),
         Eff (Logged Error None ''No accounts found in data.txt'')],
        0)"
proof -
  note ev = loadData_unreadable
  have "loadData env = withRetry (load_both env) 5 3000"
    by (rule ext) (simp add: loadData_def)
  moreover have "proxyFetch env u m pd hs proxy
      = withSelectiveRetry (executeFetch env u m pd hs proxy) 3 2000"
    by (rule ext) (simp add: proxyFetch_def)
  moreover have "attempts (trace_of (loadData env x)) = [1]"
    and "waits (trace_of (loadData env x)) = []"
    by (simp_all add: loadData_once trace_of_def)
  moreover have "main_try unreadable_env c 0 =
       (Returned,
        [Attempt 1,
         Eff (FileRead ''data.txt''),
         Eff (Logged Error None ''Error loading accounts: ENOENT: no such file or directory''),
         Eff (FileRead ''proxy.txt''),
         Eff (Logged Error None ''Error loading proxies: ENOENT: no such file or directory''),
         Eff (Logged Error None ''No accounts found in data.txt'')],
        0)"
    by (simp add: main_try_def ev)
  ultimately show ?thesis using loadData_result [of env x] ev by (intro conjI)
qed

section \<open>Proofs: scheduler\<close>

lemma invocations_append [simp]: "invocations (xs @ ys) = invocations xs @ invocations ys"
  by (induction xs rule: invocations.induct) simp_all

lemma workflow_events_invocations:
  "list_all (workflow_event proxy) tr \<Longrightarrow> invocations tr = []"
  by (induction tr rule: invocations.induct) simp_all

lemma loginAndCheckIn_invocations:
  "loginAndCheckIn env em pw proxy x = (rejected, tr, x') \<Longrightarrow> invocations tr = []"
  using loginAndCheckIn_workflow_events [of proxy env em pw x]
  by (auto simp: trace_of_def dest: workflow_events_invocations)

text \<open>One pass of the loop body, in the two cases of the test \<open>email && password\<close>.\<close>

lemma account_loop_end:
  "\<not> i < length accounts \<Longrightarrow> account_loop env accounts proxies i x = ([], x)"
  by (subst account_loop.simps) simp

lemma account_loop_skip:
  assumes "i < length accounts" and "\<not> usable (accounts ! i)"
  shows "account_loop env accounts proxies i x = account_loop env accounts proxies (i + 1) x"
  using assms
  by (subst account_loop.simps)
     (auto simp: usable_def truthy_str_def Let_def split: option.splits)

lemma account_loop_call:
  assumes "i < length accounts" and "usable (accounts ! i)"
  shows "\<exists>em pw tr x'.
      accounts ! i = \<lparr>email = Some em, password = Some pw\<rparr>
    \<and> list_all (workflow_event (round_robin proxies i)) tr
    \<and> fst (account_loop env accounts proxies i x) =
        Invoked em pw (round_robin proxies i) # tr
          @ fst (account_loop env accounts proxies (i + 1) x')"
proof -
  from assms(2) obtain em pw where a: "email (accounts ! i) = Some em" "password (accounts ! i) = Some pw"
    and ne: "em \<noteq> []" "pw \<noteq> []"
    by (auto simp: usable_def truthy_str_def split: option.splits)
  then have acc: "accounts ! i = \<lparr>email = Some em, password = Some pw\<rparr>" by simp
  let ?proxy = "round_robin proxies i"
  have px: "(if length proxies > 0 then Some (proxies ! (i mod length proxies)) else None) = ?proxy"
    by (simp add: round_robin_def)
  obtain rejected tr1 x1 where w: "loginAndCheckIn env em pw ?proxy x = (rejected, tr1, x1)"
    by (cases "loginAndCheckIn env em pw ?proxy x")
  have i1: "list_all (workflow_event ?proxy) tr1"
    using loginAndCheckIn_workflow_events [of ?proxy env em pw x] w by (simp add: trace_of_def)
  define tr2 where "tr2 =
     (case rejected of
        None \<Rightarrow> []
      | Some e \<Rightarrow>
          Eff (Logged Error (Some em) (''Process failed: '' @ message e))
            # (if i < length accounts - 1 then
                 [Eff (Logged Warn None ''Adding extra cooldown of 10s after failure...''),
                  Waited 10000]
               else []))"
  have i2: "list_all (workflow_event ?proxy) tr2" by (simp add: tr2_def split: option.splits)
  show ?thesis
  proof (cases "i < length accounts - 1")
    case True
    obtain r x2 where rnd: "Math_random env x1 = (r, x2)" by (cases "Math_random env x1")
    let ?d = "3000 + \<lfloor>r * 5000\<rfloor>"
    let ?tr = "tr1 @ tr2
        @ [Eff (Logged Info None (''Waiting '' @ show_int ?d @ ''ms before next account...'')),
           Waited (of_int ?d)]"
    have "fst (account_loop env accounts proxies i x) =
        Invoked em pw ?proxy # ?tr @ fst (account_loop env accounts proxies (i + 1) x2)"
      using assms(1) a ne w rnd True px
      by (subst account_loop.simps)
         (simp add: Let_def tr2_def split: prod.splits)
    moreover have "list_all (workflow_event ?proxy) ?tr" using i1 i2 by simp
    ultimately show ?thesis using acc by blast
  next
    case False
    have "fst (account_loop env accounts proxies i x) =
        Invoked em pw ?proxy # (tr1 @ tr2) @ fst (account_loop env accounts proxies (i + 1) x1)"
      using assms(1) a ne w False px
      by (subst account_loop.simps)
         (simp add: Let_def tr2_def split: prod.splits)
    moreover have "list_all (workflow_event ?proxy) (tr1 @ tr2)" using i1 i2 by simp
    ultimately show ?thesis using acc by blast
  qed
qed

lemma account_loop_invocations:
  "map (\<lambda>(em, pw, proxy). (\<lparr>email = Some em, password = Some pw\<rparr>, proxy))
      (invocations (fst (account_loop env accounts proxies i x)))
   = map (\<lambda>k. (accounts ! k, round_robin proxies k))
       (filter (\<lambda>k. usable (accounts ! k)) [i..<length accounts])"
proof (induction "length accounts - i" arbitrary: i x)
  case 0
  then show ?case by (simp add: account_loop_end)
next
  case (Suc n)
  then have lt: "i < length accounts" by simp
  from Suc have n: "n = length accounts - (i + 1)" by simp
  have up: "[i..<length accounts] = i # [i + 1..<length accounts]"
    using lt by (simp add: upt_rec)
  show ?case
  proof (cases "usable (accounts ! i)")
    case False
    then show ?thesis
      using Suc.hyps(1) [OF n, of x] lt by (simp add: account_loop_skip up)
  next
    case True
    from account_loop_call [OF lt True, where env = env and proxies = proxies and x = x] obtain em pw tr x'
      where "accounts ! i = \<lparr>email = Some em, password = Some pw\<rparr>"
        and "list_all (workflow_event (round_robin proxies i)) tr"
        and "fst (account_loop env accounts proxies i x) =
          Invoked em pw (round_robin proxies i) # tr
            @ fst (account_loop env accounts proxies (i + 1) x')"
      by blast
    then show ?thesis
      using Suc.hyps(1) [OF n, of x'] True workflow_events_invocations [of "round_robin proxies i" tr]
      by (simp add: up)
  qed
qed


text \<open>The same for the loop of the simpler variant.\<close>

lemma proxyFetch_index_workflow_events:
  "proxyFetch_index env u m pd hs proxy x = (r, tr, x') \<Longrightarrow> list_all (workflow_event proxy) tr"
  by (auto simp: proxyFetch_index_def dest: build_request_agent_None
      split: sum.splits prod.splits fetch_result.splits if_splits)

lemma loginAndCheckIn_index_workflow_events:
  "list_all (workflow_event proxy) (trace_of (loginAndCheckIn_index env em pw proxy x))"
proof -
  let ?pl = "Some (JObj [(''email'', JStr em), (''password'', JStr pw)])"
  obtain r1 tr1 x1 where f1:
    "proxyFetch_index env signin_url ''POST'' ?pl headersTemplate proxy x = (r1, tr1, x1)"
    by (cases "proxyFetch_index env signin_url ''POST'' ?pl headersTemplate proxy x")
  then have e1: "list_all (workflow_event proxy) tr1"
    by (rule proxyFetch_index_workflow_events)
  show ?thesis
  proof (cases r1)
    case (Inl error)
    then show ?thesis using f1 e1
      by (simp add: loginAndCheckIn_index_def trace_of_def)
  next
    case (Inr signIn)
    show ?thesis
    proof (cases "truthy signIn \<and> truthy_opt (field ''accessToken'' signIn)")
      case False
      then show ?thesis using f1 e1 Inr
        by (auto simp: loginAndCheckIn_index_def trace_of_def)
    next
      case True
      let ?hs = "headersTemplate
          @ [(''Authorization'',
              ''Bearer '' @ ToString_opt (Number_toString env) (field ''accessToken'' signIn))]"
      obtain r2 tr3 x2 where f2:
        "proxyFetch_index env users_url ''GET'' None ?hs proxy x1 = (r2, tr3, x2)"
        by (cases "proxyFetch_index env users_url ''GET'' None ?hs proxy x1")
      then have e2: "list_all (workflow_event proxy) tr3"
        by (rule proxyFetch_index_workflow_events)
      show ?thesis
      proof (cases r2)
        case (Inl error)
        then show ?thesis using f1 e1 Inr True f2 e2
          by (simp add: loginAndCheckIn_index_def trace_of_def)
      next
        case user: (Inr user)
        let ?uid = "if truthy user then field ''id'' user else None"
        show ?thesis
        proof (cases "truthy_opt ?uid")
          case False
          then show ?thesis using f1 e1 Inr True f2 e2 user
            by (simp add: loginAndCheckIn_index_def trace_of_def)
        next
          case uid: True
          obtain r3 tr5 x3 where f3:
            "proxyFetch_index env (earn_url (ToString_opt (Number_toString env) ?uid)) ''GET''
               None ?hs proxy x2 = (r3, tr5, x3)"
            by (cases "proxyFetch_index env (earn_url (ToString_opt (Number_toString env) ?uid))
               ''GET'' None ?hs proxy x2")
          then have e3: "list_all (workflow_event proxy) tr5"
            by (rule proxyFetch_index_workflow_events)
          show ?thesis using f1 e1 Inr True f2 e2 user uid f3 e3
            by (cases r3) (simp_all add: loginAndCheckIn_index_def trace_of_def)
        qed
      qed
    qed
  qed
qed

lemma account_loop_index_end:
  "\<not> i < length accounts \<Longrightarrow> account_loop_index env accounts proxies i x = ([], x)"
  by (subst account_loop_index.simps) simp

lemma account_loop_index_skip:
  assumes "i < length accounts" and "\<not> usable (accounts ! i)"
  shows "account_loop_index env accounts proxies i x
     = account_loop_index env accounts proxies (i + 1) x"
  using assms
  by (subst account_loop_index.simps)
     (auto simp: usable_def truthy_str_def Let_def split: option.splits)

lemma account_loop_index_call:
  assumes "i < length accounts" and "usable (accounts ! i)"
  shows "\<exists>em pw tr x'.
      accounts ! i = \<lparr>email = Some em, password = Some pw\<rparr>
    \<and> list_all (workflow_event (round_robin proxies i)) tr
    \<and> fst (account_loop_index env accounts proxies i x) =
        Invoked em pw (round_robin proxies i) # tr
          @ fst (account_loop_index env accounts proxies (i + 1) x')"
proof -
  from assms(2) obtain em pw where a: "email (accounts ! i) = Some em" "password (accounts ! i) = Some pw"
    and ne: "em \<noteq> []" "pw \<noteq> []"
    by (auto simp: usable_def truthy_str_def split: option.splits)
  then have acc: "accounts ! i = \<lparr>email = Some em, password = Some pw\<rparr>" by simp
  let ?proxy = "round_robin proxies i"
  have px: "(if length proxies > 0 then Some (proxies ! (i mod length proxies)) else None) = ?proxy"
    by (simp add: round_robin_def)
  obtain rejected tr1 x1 where w: "loginAndCheckIn_index env em pw ?proxy x = (rejected, tr1, x1)"
    by (cases "loginAndCheckIn_index env em pw ?proxy x")
  have i1: "list_all (workflow_event ?proxy) tr1"
    using loginAndCheckIn_index_workflow_events [of ?proxy env em pw x] w
    by (simp add: trace_of_def)
  define tr2 where "tr2 =
     (case rejected of
        None \<Rightarrow> []
      | Some e \<Rightarrow> [Eff (Logged Error (Some em) (''Process failed: '' @ message e))])"
  have i2: "list_all (workflow_event ?proxy) tr2" by (simp add: tr2_def split: option.splits)
  show ?thesis
  proof (cases "i < length accounts - 1")
    case True
    obtain r x2 where rnd: "Math_random env x1 = (r, x2)" by (cases "Math_random env x1")
    let ?d = "3000 + \<lfloor>r * 5000\<rfloor>"
    let ?tr = "tr1 @ tr2
        @ [Eff (Logged Info None (''Waiting '' @ show_int ?d @ ''ms before next account...'')),
           Waited (of_int ?d)]"
    have "fst (account_loop_index env accounts proxies i x) =
        Invoked em pw ?proxy # ?tr @ fst (account_loop_index env accounts proxies (i + 1) x2)"
      using assms(1) a ne w rnd True px
      by (subst account_loop_index.simps)
         (simp add: Let_def tr2_def split: prod.splits)
    moreover have "list_all (workflow_event ?proxy) ?tr" using i1 i2 by simp
    ultimately show ?thesis using acc by blast
  next
    case False
    have "fst (account_loop_index env accounts proxies i x) =
        Invoked em pw ?proxy # (tr1 @ tr2) @ fst (account_loop_index env accounts proxies (i + 1) x1)"
      using assms(1) a ne w False px
      by (subst account_loop_index.simps)
         (simp add: Let_def tr2_def split: prod.splits)
    moreover have "list_all (workflow_event ?proxy) (tr1 @ tr2)" using i1 i2 by simp
    ultimately show ?thesis using acc by blast
  qed
qed

lemma account_loop_index_invocations:
  "map (\<lambda>(em, pw, proxy). (\<lparr>email = Some em, password = Some pw\<rparr>, proxy))
      (invocations (fst (account_loop_index env accounts proxies i x)))
   = map (\<lambda>k. (accounts ! k, round_robin proxies k))
       (filter (\<lambda>k. usable (accounts ! k)) [i..<length accounts])"
proof (induction "length accounts - i" arbitrary: i x)
  case 0
  then show ?case by (simp add: account_loop_index_end)
next
  case (Suc n)
  then have lt: "i < length accounts" by simp
  from Suc have n: "n = length accounts - (i + 1)" by simp
  have up: "[i..<length accounts] = i # [i + 1..<length accounts]"
    using lt by (simp add: upt_rec)
  show ?case
  proof (cases "usable (accounts ! i)")
    case False
    then show ?thesis
      using Suc.hyps(1) [OF n, of x] lt by (simp add: account_loop_index_skip up)
  next
    case True
    from account_loop_index_call [OF lt True, where env = env and proxies = proxies and x = x]
    obtain em pw tr x'
      where "accounts ! i = \<lparr>email = Some em, password = Some pw\<rparr>"
        and "list_all (workflow_event (round_robin proxies i)) tr"
        and "fst (account_loop_index env accounts proxies i x) =
          Invoked em pw (round_robin proxies i) # tr
            @ fst (account_loop_index env accounts proxies (i + 1) x')"
      by blast
    then show ?thesis
      using Suc.hyps(1) [OF n, of x'] True workflow_events_invocations [of "round_robin proxies i" tr]
      by (simp add: up)
  qed
qed

lemma either_loop_invocations:
  assumes "loop = account_loop \<or> loop = account_loop_index"
  shows "map (\<lambda>(em, pw, proxy). (\<lparr>email = Some em, password = Some pw\<rparr>, proxy))
      (invocations (fst (loop env accounts proxies 0 x)))
   = map (\<lambda>k. (accounts ! k, round_robin proxies k))
       (filter (\<lambda>k. usable (accounts ! k)) [0..<length accounts])"
  using assms account_loop_invocations [of env accounts proxies 0 x]
    account_loop_index_invocations [of env accounts proxies 0 x]
  by auto

lemma filter_all_usable:
  "\<forall>a \<in> set accounts. usable a \<Longrightarrow>
   filter (\<lambda>i. usable (accounts ! i)) [0..<length accounts] = [0..<length accounts]"
  by (rule filter_True) simp

lemma upt_5: "[0..<5] = [0, 1, 2, 3, 4::nat]"
  by (simp add: upt_rec)

lemma round_robin_two:
  "map (round_robin [p0, p1]) [0, 1, 2, 3, 4] = [Some p0, Some p1, Some p0, Some p1, Some p0]"
  by (simp add: round_robin_def eval_nat_numeral mod_Suc)

text \<open>
  C6. In one pass over the accounts, in the scheduler's loop and in that of the simpler
  variant alike, the workflow is called once for each account that has an email and a
  password, in order, and the account at index \<open>i\<close> (counting every account, also those
  passed over) is given \<open>proxies[i mod proxies.length]\<close> when the proxy list is not
  empty, and no proxy when it is empty. With proxies \<open>[p0, p1]\<close> and five accounts with
  credentials the proxies are \<open>p0, p1, p0, p1, p0\<close>.
\<close>

theorem proxy_round_robin_assignment:
  assumes "loop = account_loop \<or> loop = account_loop_index"
  shows "(proxies \<noteq> [] \<longrightarrow>
      map (\<lambda>(em, pw, proxy). (\<lparr>email = Some em, password = Some pw\<rparr>, proxy))
        (invocations (fst (loop env accounts proxies 0 x)))
      = map (\<lambda>i. (accounts ! i, Some (proxies ! (i mod length proxies))))
          (filter (\<lambda>i. usable (accounts ! i)) [0..<length accounts]))
   \<and> (proxies = [] \<longrightarrow>
      map (\<lambda>(em, pw, proxy). (\<lparr>email = Some em, password = Some pw\<rparr>, proxy))
        (invocations (fst (loop env accounts proxies 0 x)))
      = map (\<lambda>i. (accounts ! i, None))
          (filter (\<lambda>i. usable (accounts ! i)) [0..<length accounts]))
   \<and> (length accounts = 5 \<and> (\<forall>a \<in> set accounts. usable a) \<and> proxies = [p0, p1] \<longrightarrow>
      map (\<lambda>(em, pw, proxy). proxy) (invocations (fst (loop env accounts proxies 0 x)))
      = [Some p0, Some p1, Some p0, Some p1, Some p0])"
proof (intro conjI impI)
  note inv = either_loop_invocations [OF assms, of env accounts proxies x]
  {
    assume "proxies \<noteq> []"
    then show "map (\<lambda>(em, pw, proxy). (\<lparr>email = Some em, password = Some pw\<rparr>, proxy))
        (invocations (fst (loop env accounts proxies 0 x)))
      = map (\<lambda>i. (accounts ! i, Some (proxies ! (i mod length proxies))))
          (filter (\<lambda>i. usable (accounts ! i)) [0..<length accounts])"
      using inv by (simp add: round_robin_def)
  next
    assume "proxies = []"
    then show "map (\<lambda>(em, pw, proxy). (\<lparr>email = Some em, password = Some pw\<rparr>, proxy))
        (invocations (fst (loop env accounts proxies 0 x)))
      = map (\<lambda>i. (accounts ! i, None))
          (filter (\<lambda>i. usable (accounts ! i)) [0..<length accounts])"
      using inv by (simp add: round_robin_def)
  next
    assume a: "length accounts = 5 \<and> (\<forall>a \<in> set accounts. usable a) \<and> proxies = [p0, p1]"
    have "map (\<lambda>(em, pw, proxy). proxy) (invocations (fst (loop env accounts proxies 0 x)))
        = map snd (map (\<lambda>(em, pw, proxy). (\<lparr>email = Some em, password = Some pw\<rparr>, proxy))
            (invocations (fst (loop env accounts proxies 0 x))))"
      by (simp add: case_prod_unfold comp_def)
    also have "\<dots> = map snd (map (\<lambda>k. (accounts ! k, round_robin proxies k))
            (filter (\<lambda>k. usable (accounts ! k)) [0..<length accounts]))"
      by (simp only: inv)
    also have "\<dots> = map (\<lambda>i. round_robin proxies i) [0..<length accounts]"
      using a by (simp add: filter_all_usable comp_def)
    also have "\<dots> = [Some p0, Some p1, Some p0, Some p1, Some p0]"
      using a round_robin_two [of p0 p1] by (simp add: upt_5)
    finally show "map (\<lambda>(em, pw, proxy). proxy)
        (invocations (fst (loop env accounts proxies 0 x)))
      = [Some p0, Some p1, Some p0, Some p1, Some p0]" .
  }
qed

lemma example_accounts_usable: "\<forall>a \<in> set example_accounts. usable a"
  by (simp add: example_accounts_def usable_def truthy_str_def)

theorem proxy_round_robin_assignment_witness:
  "map (\<lambda>(em, pw, proxy). proxy)
      (invocations (fst (account_loop example_env example_accounts [''p0'', ''p1''] 0 0)))
     = [Some ''p0'', Some ''p1'', Some ''p0'', Some ''p1'', Some ''p0'']
   \<and> map (\<lambda>(em, pw, proxy). proxy)
      (invocations (fst (account_loop_index example_env example_accounts [''p0'', ''p1''] 0 0)))
     = [Some ''p0'', Some ''p1'', Some ''p0'', Some ''p1'', Some ''p0'']
   \<and> map (\<lambda>(em, pw, proxy). (\<lparr>email = Some em, password = Some pw\<rparr>, proxy))
        (invocations (fst (account_loop example_env example_accounts [] 0 0)))
     = map (\<lambda>i. (example_accounts ! i, None))
         (filter (\<lambda>i. usable (example_accounts ! i)) [0..<length example_accounts])"
proof -
  have h: "length example_accounts = 5 \<and> (\<forall>a \<in> set example_accounts. usable a)
      \<and> [''p0'', ''p1''] = [''p0'', ''p1'']"
    using example_accounts_usable by (simp add: example_accounts_def)
  have l1: "(account_loop :: nat env \<Rightarrow> _) = account_loop
      \<or> (account_loop :: nat env \<Rightarrow> _) = account_loop_index" by simp
  have l2: "(account_loop_index :: nat env \<Rightarrow> _) = account_loop
      \<or> (account_loop_index :: nat env \<Rightarrow> _) = account_loop_index" by simp
  note c1 = proxy_round_robin_assignment
    [OF l1, where proxies = "[''p0'', ''p1'']" and env = example_env
      and accounts = example_accounts and x = 0 and ?p0.0 = "''p0''" and ?p1.0 = "''p1''",
      THEN conjunct2, THEN conjunct2, rule_format, OF h]
  note c1' = proxy_round_robin_assignment
    [OF l2, where proxies = "[''p0'', ''p1'']" and env = example_env
      and accounts = example_accounts and x = 0 and ?p0.0 = "''p0''" and ?p1.0 = "''p1''",
      THEN conjunct2, THEN conjunct2, rule_format, OF h]
  have e: "([]::string list) = []" by simp
  note c2 = proxy_round_robin_assignment
    [OF l1, where proxies = "[]" and env = example_env
      and accounts = example_accounts and x = 0,
      THEN conjunct2, THEN conjunct1, rule_format, OF e]
  from c1 c1' c2 show ?thesis by (intro conjI)
qed

lemma split_nonempty: "split c s \<noteq> []"
  by (induction s) (simp_all split: list.splits)

lemma split_no_separator: "c \<notin> set s \<Longrightarrow> split c s = [s]"
  by (induction s) auto

lemma split_at_first: "c \<notin> set a \<Longrightarrow> split c (a @ c # r) = a # split c r"
  by (induction a) auto

lemma parse_account_no_colon:
  "CHR '':'' \<notin> set l \<Longrightarrow> parse_account l = \<lparr>email = Some l, password = None\<rparr>"
  by (simp add: parse_account_def split_no_separator nth_opt_def)

lemma parse_account_first_two:
  assumes "CHR '':'' \<notin> set e" and "CHR '':'' \<notin> set p"
  shows "parse_account (e @ '':'' @ p) = \<lparr>email = Some e, password = Some p\<rparr>"
    and "parse_account (e @ '':'' @ p @ '':'' @ rest) = \<lparr>email = Some e, password = Some p\<rparr>"
  using assms split_nonempty [of "CHR '':''" rest]
  by (simp_all add: parse_account_def split_at_first split_no_separator nth_opt_def)

text \<open>
  C10. A credential line is split at every \<open>:\<close> and only the first two parts are kept:
  the email is the text before the first colon, the password the text between the first
  and the second colon, so that a password with a colon in it is cut at that colon; a
  line without colon gives an account whose password is undefined. Each kept line of the
  file becomes one account this way. In the scheduler's loop an account without password
  is passed over: the loop goes on at the next index in the same world, with no event,
  and so without a call of the workflow.
\<close>

theorem credential_line_split_and_skip:
  "(CHR '':'' \<notin> set e \<and> CHR '':'' \<notin> set p \<longrightarrow>
      parse_account (e @ '':'' @ p) = \<lparr>email = Some e, password = Some p\<rparr>
      \<and> parse_account (e @ '':'' @ p @ '':'' @ rest) = \<lparr>email = Some e, password = Some p\<rparr>)
   \<and> (CHR '':'' \<notin> set l \<longrightarrow> parse_account l = \<lparr>email = Some l, password = None\<rparr>)
   \<and> (readFile env ''data.txt'' x = (Inr data, x') \<longrightarrow>
        fst (loadAccounts env x) = map parse_account (kept_lines data))
   \<and> (i < length accounts \<and> password (accounts ! i) = None \<longrightarrow>
        account_loop env accounts proxies i y = account_loop env accounts proxies (i + 1) y)"
proof (intro conjI impI)
  assume "CHR '':'' \<notin> set e \<and> CHR '':'' \<notin> set p"
  then show "parse_account (e @ '':'' @ p) = \<lparr>email = Some e, password = Some p\<rparr>"
    and "parse_account (e @ '':'' @ p @ '':'' @ rest) = \<lparr>email = Some e, password = Some p\<rparr>"
    using parse_account_first_two(1) [where e = e and p = p]
      parse_account_first_two(2) [where e = e and p = p and rest = rest]
    by simp_all
next
  assume "CHR '':'' \<notin> set l"
  then show "parse_account l = \<lparr>email = Some l, password = None\<rparr>"
    by (rule parse_account_no_colon)
next
  assume "readFile env ''data.txt'' x = (Inr data, x')"
  then show "fst (loadAccounts env x) = map parse_account (kept_lines data)"
    by (simp add: loadAccounts_def)
next
  assume "i < length accounts \<and> password (accounts ! i) = None"
  then show "account_loop env accounts proxies i y = account_loop env accounts proxies (i + 1) y"
    using account_loop_skip [where i = i and accounts = accounts and env = env
        and proxies = proxies and x = y]
    by (simp add: usable_def truthy_str_def)
qed

lemma example_data_accounts:
  "fst (loadAccounts example_env 0) =
     [\<lparr>email = Some ''a@x.com'', password = Some ''pw1''\<rparr>,
      \<lparr>email = Some ''b@x.com'', password = Some ''p''\<rparr>,
      \<lparr>email = Some ''nocolon'', password = None\<rparr>]"
  by code_simp

theorem credential_line_split_and_skip_witness:
  "parse_account ''b@x.com:p:w2'' = \<lparr>email = Some ''b@x.com'', password = Some ''p''\<rparr>
   \<and> parse_account ''nocolon'' = \<lparr>email = Some ''nocolon'', password = None\<rparr>
   \<and> fst (loadAccounts example_env 0) = map parse_account (kept_lines example_data)
   \<and> account_loop example_env (fst (loadAccounts example_env 0)) [''p0'', ''p1''] 2 0
       = account_loop example_env (fst (loadAccounts example_env 0)) [''p0'', ''p1''] (2 + 1) 0"
proof -
  note T = credential_line_split_and_skip
  have h1: "CHR '':'' \<notin> set ''b@x.com'' \<and> CHR '':'' \<notin> set ''p''" by simp
  have c1: "parse_account ''b@x.com:p:w2'' = \<lparr>email = Some ''b@x.com'', password = Some ''p''\<rparr>"
    using T [where e = "''b@x.com''" and p = "''p''" and rest = "''w2''", THEN conjunct1, rule_format, OF h1] by simp
  have h2: "CHR '':'' \<notin> set ''nocolon''" by simp
  note c2 = T [where l = "''nocolon''", THEN conjunct2, THEN conjunct1, rule_format, OF h2]
  have h3: "readFile example_env ''data.txt'' 0 = (Inr example_data, 0)"
    by (simp add: example_env_def)
  note c3 = T [where env = example_env and x = 0 and data = example_data and x' = 0,
      THEN conjunct2, THEN conjunct2, THEN conjunct1, rule_format, OF h3]
  have h4: "2 < length (fst (loadAccounts example_env 0))
      \<and> password (fst (loadAccounts example_env 0) ! 2) = None"
    by (simp add: example_data_accounts)
  note c4 = T [where i = 2 and accounts = "fst (loadAccounts example_env 0)" and env = example_env
      and proxies = "[''p0'', ''p1'']" and y = 0,
      THEN conjunct2, THEN conjunct2, THEN conjunct2, rule_format, OF h4]
  from c1 c2 c3 c4 show ?thesis by (intro conjI)
qed

lemma workflow_event_direct': "workflow_event q e \<Longrightarrow> q = None \<Longrightarrow> direct_event e"
  by (induction q e rule: workflow_event.induct) simp_all

lemma workflow_event_direct: "workflow_event None e \<Longrightarrow> direct_event e"
  by (rule workflow_event_direct') simp_all

lemma workflow_events_direct: "list_all (workflow_event None) tr \<Longrightarrow> list_all direct_event tr"
  by (induction tr) (simp_all add: workflow_event_direct)

lemma account_loop_direct: "list_all direct_event (fst (account_loop env accounts [] i x))"
proof (induction "length accounts - i" arbitrary: i x)
  case 0
  then show ?case by (simp add: account_loop_end)
next
  case (Suc n)
  then have lt: "i < length accounts" by simp
  from Suc have n: "n = length accounts - (i + 1)" by simp
  show ?case
  proof (cases "usable (accounts ! i)")
    case False
    then show ?thesis
      using Suc.hyps(1) [OF n, of x] lt by (simp add: account_loop_skip)
  next
    case True
    from account_loop_call [OF lt True, where env = env and proxies = "[]" and x = x] obtain em pw tr x'
      where "list_all (workflow_event (round_robin [] i)) tr"
        and "fst (account_loop env accounts [] i x) =
          Invoked em pw (round_robin [] i) # tr @ fst (account_loop env accounts [] (i + 1) x')"
      by blast
    then show ?thesis
      using Suc.hyps(1) [OF n, of x'] workflow_events_direct [where tr = tr]
      by (simp add: round_robin_def)
  qed
qed

lemma cycles_direct: "list_all direct_event (fst (cycles env accounts [] c x))"
proof (induction c arbitrary: x)
  case 0
  show ?case by simp
next
  case (Suc c)
  obtain tr1 x1 where a: "account_loop env accounts [] 0 x = (tr1, x1)"
    by (cases "account_loop env accounts [] 0 x")
  then have d1: "list_all direct_event tr1"
    using account_loop_direct [where env = env and accounts = accounts and i = 0 and x = x]
    by simp
  obtain rm x2 where r1: "Math_random env x1 = (rm, x2)" by (cases "Math_random env x1")
  obtain rs x3 where r2: "Math_random env x2 = (rs, x3)" by (cases "Math_random env x2")
  obtain t nextRunTime x4 where u: "until_next_run env \<lfloor>rm * 60\<rfloor> \<lfloor>rs * 60\<rfloor> x3 = ((t, nextRunTime), x4)"
    by (cases "until_next_run env \<lfloor>rm * 60\<rfloor> \<lfloor>rs * 60\<rfloor> x3") auto
  obtain tr2 x5 where c: "cycles env accounts [] c x4 = (tr2, x5)"
    by (cases "cycles env accounts [] c x4")
  then have d2: "list_all direct_event tr2" using Suc [of x4] by simp
  show ?case using a r1 r2 u c d1 d2 by (simp add: Let_def)
qed

lemma direct_events_requests:
  "list_all direct_event tr \<Longrightarrow> req \<in> set (requests tr) \<Longrightarrow> agent req = None"
  by (induction tr rule: requests.induct) auto

lemma direct_events_invocations:
  "list_all direct_event tr \<Longrightarrow> (em, pw, proxy) \<in> set (invocations tr) \<Longrightarrow> proxy = None"
  by (induction tr rule: invocations.induct) auto

lemma main_try_no_accounts:
  assumes "loadData env x = (Inr ([], proxies), tr0, x0)"
  shows "main_try env c x =
     (Returned, tr0 @ [Eff (Logged Error None ''No accounts found in data.txt'')], x0)"
  using assms by (simp add: main_try_def)

lemma main_try_no_proxies:
  assumes "loadData env x = (Inr (accounts, []), tr0, x0)" and "accounts \<noteq> []"
  shows "main_try env c x =
     (Running,
      tr0 @ [Eff (Logged Warn None ''No proxies found in proxy.txt, will proceed without proxies''),
             Eff (Logged Info None (''Loaded '' @ show_nat (length accounts) @ '' accounts''))]
          @ fst (cycles env accounts [] c x0),
      snd (cycles env accounts [] c x0))"
  using assms by (simp add: main_try_def split: prod.splits)

lemma main_try_no_proxies_direct:
  assumes "loadData env x = (Inr (accounts, []), tr0, x0)" and "accounts \<noteq> []"
  shows "list_all direct_event (trace_of (main_try env c x))"
proof -
  have "list_all direct_event tr0"
    using loadData_direct [of env x] assms(1) by (simp add: trace_of_def)
  then show ?thesis
    using cycles_direct [where env = env and accounts = accounts and c = c and x = x0]
    by (simp add: main_try_no_proxies [OF assms] trace_of_def)
qed

lemma cycles_starts:
  "0 < c \<Longrightarrow> \<exists>rest. fst (cycles env accounts proxies c x) =
     Eff (Logged Info None
       (CHR 0x1B # ''[38;5;51m======== Starting daily check-in process ========''
          @ CHR 0x1B # ''[0m'')) # rest"
  by (cases c) (auto simp: Let_def split: prod.splits)

text \<open>
  C7. After loading: with an empty account list, \<open>main\<close> logs the error ``No accounts
  found in data.txt'' and returns, so its trace ends there however long the run is
  observed; with accounts and an empty proxy list, it logs the warning ``No proxies found
  in proxy.txt, will proceed without proxies'' and the number of accounts and goes into
  its loop, whose first event is the entry that starts a pass, and in the whole run every
  request is made without an agent and every call of the workflow without a proxy.
\<close>

theorem startup_empty_lists:
  "(loadData env x = (Inr ([], proxies), tr0, x0) \<longrightarrow>
      main_try env c x =
        (Returned, tr0 @ [Eff (Logged Error None ''No accounts found in data.txt'')], x0))
   \<and> (loadData env x = (Inr (accounts, []), tr0, x0) \<and> accounts \<noteq> [] \<longrightarrow>
      main_try env c x =
        (Running,
         tr0 @ [Eff (Logged Warn None
                  ''No proxies found in proxy.txt, will proceed without proxies''),
                Eff (Logged Info None (''Loaded '' @ show_nat (length accounts) @ '' accounts''))]
             @ fst (cycles env accounts [] c x0),
         snd (cycles env accounts [] c x0))
      \<and> (0 < c \<longrightarrow>
           (\<exists>rest. fst (cycles env accounts [] c x0) =
              Eff (Logged Info None
                (CHR 0x1B # ''[38;5;51m======== Starting daily check-in process ========''
                   @ CHR 0x1B # ''[0m'')) # rest))
      \<and> (\<forall>req \<in> set (requests (trace_of (main_try env c x))). agent req = None)
      \<and> (\<forall>(em, pw, proxy) \<in> set (invocations (trace_of (main_try env c x))). proxy = None))"
proof (intro conjI impI)
  assume "loadData env x = (Inr ([], proxies), tr0, x0)"
  then show "main_try env c x =
      (Returned, tr0 @ [Eff (Logged Error None ''No accounts found in data.txt'')], x0)"
    by (rule main_try_no_accounts)
next
  assume a: "loadData env x = (Inr (accounts, []), tr0, x0) \<and> accounts \<noteq> []"
  then have l: "loadData env x = (Inr (accounts, []), tr0, x0)" and ne: "accounts \<noteq> []"
    by simp_all
  show "main_try env c x =
        (Running,
         tr0 @ [Eff (Logged Warn None
                  ''No proxies found in proxy.txt, will proceed without proxies''),
                Eff (Logged Info None (''Loaded '' @ show_nat (length accounts) @ '' accounts''))]
             @ fst (cycles env accounts [] c x0),
         snd (cycles env accounts [] c x0))"
    using l ne by (rule main_try_no_proxies)
  note d = main_try_no_proxies_direct [OF l ne, of c]
  show "\<forall>req \<in> set (requests (trace_of (main_try env c x))). agent req = None"
    using direct_events_requests [OF d] by simp
  show "\<forall>(em, pw, proxy) \<in> set (invocations (trace_of (main_try env c x))). proxy = None"
    using direct_events_invocations [OF d] by auto
next
  assume "0 < c"
  then show "\<exists>rest. fst (cycles env accounts [] c x0) =
      Eff (Logged Info None
        (CHR 0x1B # ''[38;5;51m======== Starting daily check-in process ========''
           @ CHR 0x1B # ''[0m'')) # rest"
    by (rule cycles_starts)
qed

lemma loadData_direct_env:
  "loadData direct_env 0 =
     (Inr ([\<lparr>email = Some ''a@x.com'', password = Some ''pw1''\<rparr>,
            \<lparr>email = Some ''b@x.com'', password = Some ''p''\<rparr>,
            \<lparr>email = Some ''nocolon'', password = None\<rparr>], []),
      [Attempt 1, Eff (FileRead ''data.txt''), Eff (FileRead ''proxy.txt'')],
      0)"
  by code_simp

theorem startup_empty_lists_witness:
  "main_try unreadable_env 1 0 =
     (Returned,
      [Attempt 1,
       Eff (FileRead ''data.txt''),
       Eff (Logged Error None ''Error loading accounts: ENOENT: no such file or directory''),
       Eff (FileRead ''proxy.txt''),
       Eff (Logged Error None ''Error loading proxies: ENOENT: no such file or directory'')]
      @ [Eff (Logged Error None ''No accounts found in data.txt'')],
      0)
   \<and> fst (main_try direct_env 1 0) = Running
   \<and> list_all (\<lambda>req. agent req = None) (requests (trace_of (main_try direct_env 1 0)))"
proof -
  note T = startup_empty_lists
  note c1 = T [where env = unreadable_env and x = 0 and c = 1,
      THEN conjunct1, rule_format, OF loadData_unreadable]
  have h: "loadData direct_env 0 =
     (Inr ([\<lparr>email = Some ''a@x.com'', password = Some ''pw1''\<rparr>,
            \<lparr>email = Some ''b@x.com'', password = Some ''p''\<rparr>,
            \<lparr>email = Some ''nocolon'', password = None\<rparr>], []),
      [Attempt 1, Eff (FileRead ''data.txt''), Eff (FileRead ''proxy.txt'')],
      0)
    \<and> [\<lparr>email = Some ''a@x.com'', password = Some ''pw1''\<rparr>,
            \<lparr>email = Some ''b@x.com'', password = Some ''p''\<rparr>,
            \<lparr>email = Some ''nocolon'', password = None\<rparr>] \<noteq> []"
    using loadData_direct_env by simp
  note c2 = T [where env = direct_env and x = 0 and c = 1,
      THEN conjunct2, rule_format, OF h]
  have r: "fst (main_try direct_env 1 0) = Running"
    using c2 [THEN conjunct1] by simp
  have q: "list_all (\<lambda>req. agent req = None) (requests (trace_of (main_try direct_env 1 0)))"
    using c2 [THEN conjunct2, THEN conjunct2, THEN conjunct1] by (simp add: list_all_iff)
  from c1 r q show ?thesis by (intro conjI)
qed

section \<open>Proofs: recovery\<close>

lemma main_with_restart:
  assumes "block x = (Threw (Some e), tr, x1)"
  shows "main_with block (Suc k) x =
     (fst (main_with block k x1),
      tr @ [Eff (Logged Error None (''Critical error in main process: '' @ message e)),
            Eff (Logged Info None ''Restarting main process in 60 seconds...''),
            Waited 60000]
         @ trace_of (main_with block k x1),
      state_of (main_with block k x1))"
  using assms by (simp add: trace_of_def state_of_def split: prod.splits)

lemma main_with_keeps_running:
  assumes "\<forall>y. \<exists>e tr y'. block y = (Threw (Some e), tr, y')"
  shows "fst (main_with block k x) = Running"
proof (induction k arbitrary: x)
  case 0
  show ?case by simp
next
  case (Suc k)
  from assms obtain e tr y' where b: "block x = (Threw (Some e), tr, y')" by blast
  show ?case
    using Suc [of y'] main_with_restart [where block = block and x = x, OF b, of k]
    by simp
qed

lemma main_try_loads_first:
  "\<exists>rest. trace_of (main_try env c y) = trace_of (loadData env y) @ rest"
  by (auto simp: main_try_def trace_of_def split: prod.splits sum.splits)

lemma main_try_never_throws: "fst (main_try env c x) \<noteq> Threw t"
  using loadData_result [of env x]
  by (auto simp: main_try_def split: prod.splits sum.splits)

text \<open>
  C8. Whatever the \<open>try\<close> block of \<open>main\<close> is, when a run of it throws an \<open>Error\<close>, \<open>main\<close>
  logs the error entry ``Critical error in main process: '' with the message and the
  info entry ``Restarting main process in 60 seconds...'', waits 60000 ms and then is
  whatever a new call of \<open>main\<close> is, in the world the failed run left: outcome, events
  and final world are those of the new call, so the process goes on and, if every run
  throws, never returns. \<open>main\<close> is this scheme around its own \<open>try\<close> block, and every
  run of that block starts with a call of \<open>loadData\<close>, which reads both files again.
  (The block itself never throws here, see \<open>main_try_never_throws\<close>: each of its callees
  catches its errors, and the exceptions the clause is written for come from outside
  the program's own logic. Hence the statement for an arbitrary block.)
\<close>

theorem runner_restarts_after_exception:
  "(block x = (Threw (Some e), tr, x1) \<longrightarrow>
      main_with block (Suc k) x =
        (fst (main_with block k x1),
         tr @ [Eff (Logged Error None (''Critical error in main process: '' @ message e)),
               Eff (Logged Info None ''Restarting main process in 60 seconds...''),
               Waited 60000]
            @ trace_of (main_with block k x1),
         state_of (main_with block k x1)))
   \<and> ((\<forall>y. \<exists>e tr y'. block y = (Threw (Some e), tr, y')) \<longrightarrow>
        fst (main_with block k x) = Running)
   \<and> main env k c = main_with (main_try env c) k
   \<and> (\<exists>rest. trace_of (main_try env c y) = trace_of (loadData env y) @ rest)
   \<and> Eff (FileRead ''data.txt'') \<in> set (trace_of (loadData env y))
   \<and> Eff (FileRead ''proxy.txt'') \<in> set (trace_of (loadData env y))"
proof (intro conjI impI)
  assume "block x = (Threw (Some e), tr, x1)"
  then show "main_with block (Suc k) x =
        (fst (main_with block k x1),
         tr @ [Eff (Logged Error None (''Critical error in main process: '' @ message e)),
               Eff (Logged Info None ''Restarting main process in 60 seconds...''),
               Waited 60000]
            @ trace_of (main_with block k x1),
         state_of (main_with block k x1))"
    by (rule main_with_restart)
next
  assume "\<forall>y. \<exists>e tr y'. block y = (Threw (Some e), tr, y')"
  then show "fst (main_with block k x) = Running" by (rule main_with_keeps_running)
next
  show "main env k c = main_with (main_try env c) k"
    by (rule ext) (simp add: main_def)
  show "\<exists>rest. trace_of (main_try env c y) = trace_of (loadData env y) @ rest"
    by (rule main_try_loads_first)
  show "Eff (FileRead ''data.txt'') \<in> set (trace_of (loadData env y))"
    and "Eff (FileRead ''proxy.txt'') \<in> set (trace_of (loadData env y))"
    using loadData_reads [of env y] by simp_all
qed

theorem runner_restarts_after_exception_witness:
  "main_with example_block 2 0 =
     (Returned,
      [Eff (FileRead ''data.txt''),
       Eff (Logged Error None ''Critical error in main process: boom''),
       Eff (Logged Info None ''Restarting main process in 60 seconds...''),
       Waited 60000,
       Eff (FileRead ''data.txt'')],
      1)"
proof -
  have h: "example_block 0 = (Threw (Some (example_error False)), [Eff (FileRead ''data.txt'')], 1)"
    by (simp add: example_block_def)
  have r: "main_with example_block (Suc 0) 1 = (Returned, [Eff (FileRead ''data.txt'')], 1)"
    by (simp add: example_block_def)
  note c = runner_restarts_after_exception
    [where block = example_block and x = 0 and k = "Suc 0",
      THEN conjunct1, rule_format, OF h]
  have "main_with example_block 2 0 = main_with example_block (Suc (Suc 0)) 0"
    by (simp add: numeral_2_eq_2)
  then show ?thesis
    using c r by (simp add: trace_of_def state_of_def example_error_def)
qed

end
